theory Spec2Isabelle
  imports Complex_Main "HOL-Library.Word"
begin

section \<open>JavaScript values used by image-to-pixel.js\<close>

text \<open>
  A JavaScript number is modelled as a real number or \<open>NaN\<close>. Arithmetic on two real
  numbers is exact (the rounding of IEEE doubles and of the \<open>Float32Array\<close> is not
  modelled); anything combined with \<open>NaN\<close> is \<open>NaN\<close>, and every comparison with
  \<open>NaN\<close> is false. Reading an array past its end gives \<open>undefined\<close>, which the source
  only ever uses in arithmetic, where it becomes \<open>NaN\<close>.
\<close>

datatype number = Num real | NaN

instantiation number :: "{plus, minus, times, inverse}"
begin

fun plus_number :: "number \<Rightarrow> number \<Rightarrow> number" where
  "plus_number (Num a) (Num b) = Num (a + b)"
| "plus_number _ _ = NaN"

fun minus_number :: "number \<Rightarrow> number \<Rightarrow> number" where
  "minus_number (Num a) (Num b) = Num (a - b)"
| "minus_number _ _ = NaN"

fun times_number :: "number \<Rightarrow> number \<Rightarrow> number" where
  "times_number (Num a) (Num b) = Num (a * b)"
| "times_number _ _ = NaN"

text \<open>The source never divides by zero: its divisors are literals, or the square of a
  matrix size that is positive where the division is reached.\<close>

fun divide_number :: "number \<Rightarrow> number \<Rightarrow> number" where
  "divide_number (Num a) (Num b) = (if b = 0 then NaN else Num (a / b))"
| "divide_number _ _ = NaN"

definition inverse_number :: "number \<Rightarrow> number" where
  "inverse_number a = divide (Num 1) a"

instance ..

end

text \<open>The operator \<open><\<close> of JavaScript.\<close>

fun lt :: "number \<Rightarrow> number \<Rightarrow> bool" where
  "lt (Num a) (Num b) = (a < b)"
| "lt _ _ = False"

text \<open>
  The entries of \<open>ImageData.data\<close> (a \<open>Uint8ClampedArray\<close>) are bytes. A palette colour
  is what \<open>hexToRgb\<close> builds, \<open>[bigint >> 16 & 255, bigint >> 8 & 255, bigint & 255]\<close>:
  three bytes. A colour that is being quantized is a triple of numbers.
\<close>

type_synonym byte = "8 word"
type_synonym rgb = "byte \<times> byte \<times> byte"
type_synonym color = "number \<times> number \<times> number"

definition byteVal :: "byte \<Rightarrow> real" where
  "byteVal v = real (unat v)"

definition byteNum :: "byte \<Rightarrow> number" where
  "byteNum v = Num (byteVal v)"

text \<open>A JavaScript string is a list of UTF-16 code units; \<open>js\<close> turns a literal of
  ASCII characters into one.\<close>

type_synonym jsstring = "16 word list"

definition js :: "string \<Rightarrow> jsstring" where
  "js s = map (\<lambda>c. of_nat (of_char c)) s"

text \<open>\<open>TypeError\<close> is what the runtime throws on reading a property of \<open>undefined\<close>;
  \<open>Error msg\<close> is \<open>throw new Error(msg)\<close>.\<close>

datatype error = TypeError | Error jsstring

section \<open>Colour distance and nearest palette colour\<close>

fun colorDistance :: "color \<Rightarrow> rgb \<Rightarrow> number" where
  "colorDistance (r1, g1, b1) (r2, g2, b2) =
     (let rDiff = r1 - byteNum r2;
          gDiff = g1 - byteNum g2;
          bDiff = b1 - byteNum b2
      in rDiff * rDiff + gDiff * gDiff + bDiff * bDiff)"

text \<open>The loop \<open>for (let i = 1; i < palette.length; i++)\<close> of \<open>findClosestPaletteColor\<close>,
  with its two local variables.\<close>

function closestLoop :: "color \<Rightarrow> rgb list \<Rightarrow> nat \<Rightarrow> rgb \<Rightarrow> number \<Rightarrow> rgb" where
  "closestLoop color palette i closestColor closestDistance =
     (if i < length palette then
        (let currentDistance = colorDistance color (palette ! i) in
         if lt currentDistance closestDistance
         then closestLoop color palette (i + 1) (palette ! i) currentDistance
         else closestLoop color palette (i + 1) closestColor closestDistance)
      else closestColor)"
  by pat_completeness auto
termination
  by (relation "measure (\<lambda>(color, palette, i, c, d). length palette - i)") auto

declare closestLoop.simps [simp del]

text \<open>With an empty palette \<open>palette[0]\<close> is \<open>undefined\<close>, and \<open>colorDistance\<close> throws a
  \<open>TypeError\<close> when it reads \<open>color2[0]\<close>.\<close>

fun findClosestPaletteColor :: "color \<Rightarrow> rgb list \<Rightarrow> error + rgb" where
  "findClosestPaletteColor color [] = Inl TypeError"
| "findClosestPaletteColor color (p0 # rest) =
     Inr (closestLoop color (p0 # rest) 1 p0 (colorDistance color p0))"

section \<open>Typed arrays\<close>

text \<open>
  \<open>ImageData.data\<close> is a list of bytes and the \<open>Float32Array\<close> error buffer a list of
  numbers. A read past the end gives \<open>undefined\<close> (\<open>NaN\<close> once it is used in arithmetic);
  a write past the end is ignored, which is what \<open>xs[i := v]\<close> does. Every value the
  source stores into \<open>data\<close> is a channel of a palette colour, a byte, so the clamping
  of the \<open>Uint8ClampedArray\<close> never changes it.
\<close>

definition rd :: "byte list \<Rightarrow> nat \<Rightarrow> number" where
  "rd data i = (if i < length data then byteNum (data ! i) else NaN)"

definition rdF :: "number list \<Rightarrow> nat \<Rightarrow> number" where
  "rdF buffer i = (if i < length buffer then buffer ! i else NaN)"

text \<open>The statement \<open>for (let i = lo; i < n; i++) body\<close>, where the body may throw.\<close>

function forLoop :: "nat \<Rightarrow> nat \<Rightarrow> (nat \<Rightarrow> 's \<Rightarrow> error + 's) \<Rightarrow> 's \<Rightarrow> error + 's" where
  "forLoop i n body s =
     (if i < n then
        (case body i s of
           Inl e \<Rightarrow> Inl e
         | Inr s' \<Rightarrow> forLoop (i + 1) n body s')
      else Inr s)"
  by pat_completeness auto
termination
  by (relation "measure (\<lambda>(i, n, body, s). n - i)") auto

declare forLoop.simps [simp del]

section \<open>Flat quantization\<close>

function applyPaletteLoop :: "nat \<Rightarrow> byte list \<Rightarrow> rgb list \<Rightarrow> error + byte list" where
  "applyPaletteLoop i data paletteColors =
     (if i < length data then
        (let color = (rd data i, rd data (i + 1), rd data (i + 2)) in
         case findClosestPaletteColor color paletteColors of
           Inl e \<Rightarrow> Inl e
         | Inr (r, g, b) \<Rightarrow>
             applyPaletteLoop (i + 4) (data[i := r, i + 1 := g, i + 2 := b]) paletteColors)
      else Inr data)"
  by pat_completeness auto
termination
  by (relation "measure (\<lambda>(i, data, paletteColors). length data - i)") auto

declare applyPaletteLoop.simps [simp del]

text \<open>\<open>applyPalette\<close> changes \<open>imageData.data\<close> in place; the model returns the changed data.\<close>

definition applyPalette :: "byte list \<Rightarrow> rgb list \<Rightarrow> error + byte list" where
  "applyPalette data paletteColors = applyPaletteLoop 0 data paletteColors"

section \<open>Error diffusion\<close>

definition distributeError ::
  "number list \<Rightarrow> int \<Rightarrow> int \<Rightarrow> color \<Rightarrow> number \<Rightarrow> nat \<Rightarrow> nat \<Rightarrow> number list" where
  "distributeError buffer x y quantError factor width height =
     (if x < 0 \<or> x \<ge> int width \<or> y < 0 \<or> y \<ge> int height then buffer
      else
        (case quantError of (q0, q1, q2) \<Rightarrow>
           let idx = nat ((y * int width + x) * 4);
               buffer = buffer[idx := rdF buffer idx + q0 * factor];
               buffer = buffer[idx + 1 := rdF buffer (idx + 1) + q1 * factor];
               buffer = buffer[idx + 2 := rdF buffer (idx + 2) + q2 * factor]
           in buffer))"

text \<open>The body of the two nested loops of \<open>floydSteinbergDithering\<close>, on the pair of
  \<open>data\<close> and \<open>errorBuffer\<close>.\<close>

definition fsPixel ::
  "nat \<Rightarrow> nat \<Rightarrow> number \<Rightarrow> rgb list \<Rightarrow> nat \<Rightarrow> nat
     \<Rightarrow> byte list \<times> number list \<Rightarrow> error + byte list \<times> number list" where
  "fsPixel width height strength paletteColors y x st =
     (case st of (data, errorBuffer) \<Rightarrow>
        let idx = (y * width + x) * 4;
            r = rd data idx + rdF errorBuffer idx;
            g = rd data (idx + 1) + rdF errorBuffer (idx + 1);
            b = rd data (idx + 2) + rdF errorBuffer (idx + 2)
        in (case findClosestPaletteColor (r, g, b) paletteColors of
             Inl e \<Rightarrow> Inl e
           | Inr (n0, n1, n2) \<Rightarrow>
               let data = data[idx := n0, idx + 1 := n1, idx + 2 := n2];
                   quantError = ((r - byteNum n0) * strength,
                                 (g - byteNum n1) * strength,
                                 (b - byteNum n2) * strength);
                   errorBuffer = distributeError errorBuffer (int x + 1) (int y)
                                   quantError (Num (7 / 16)) width height;
                   errorBuffer = distributeError errorBuffer (int x - 1) (int y + 1)
                                   quantError (Num (3 / 16)) width height;
                   errorBuffer = distributeError errorBuffer (int x) (int y + 1)
                                   quantError (Num (5 / 16)) width height;
                   errorBuffer = distributeError errorBuffer (int x + 1) (int y + 1)
                                   quantError (Num (1 / 16)) width height
               in Inr (data, errorBuffer)))"

definition floydSteinbergDithering ::
  "byte list \<Rightarrow> nat \<Rightarrow> nat \<Rightarrow> number \<Rightarrow> rgb list \<Rightarrow> error + byte list" where
  "floydSteinbergDithering data width height strength paletteColors =
     (let errorBuffer = replicate (length data) (Num 0) in
      case forLoop 0 height
             (\<lambda>y. forLoop 0 width (fsPixel width height strength paletteColors y))
             (data, errorBuffer) of
        Inl e \<Rightarrow> Inl e
      | Inr (data, errorBuffer) \<Rightarrow> Inr data)"

definition atkinsonPixel ::
  "nat \<Rightarrow> nat \<Rightarrow> number \<Rightarrow> rgb list \<Rightarrow> nat \<Rightarrow> nat
     \<Rightarrow> byte list \<times> number list \<Rightarrow> error + byte list \<times> number list" where
  "atkinsonPixel width height strength paletteColors y x st =
     (case st of (data, errorBuffer) \<Rightarrow>
        let idx = (y * width + x) * 4;
            r = rd data idx + rdF errorBuffer idx;
            g = rd data (idx + 1) + rdF errorBuffer (idx + 1);
            b = rd data (idx + 2) + rdF errorBuffer (idx + 2)
        in (case findClosestPaletteColor (r, g, b) paletteColors of
             Inl e \<Rightarrow> Inl e
           | Inr (n0, n1, n2) \<Rightarrow>
               let data = data[idx := n0, idx + 1 := n1, idx + 2 := n2];
                   quantError = ((r - byteNum n0) * strength,
                                 (g - byteNum n1) * strength,
                                 (b - byteNum n2) * strength);
                   errorBuffer = distributeError errorBuffer (int x + 1) (int y)
                                   quantError (Num (1 / 8)) width height;
                   errorBuffer = distributeError errorBuffer (int x + 2) (int y)
                                   quantError (Num (1 / 8)) width height;
                   errorBuffer = distributeError errorBuffer (int x - 1) (int y + 1)
                                   quantError (Num (1 / 8)) width height;
                   errorBuffer = distributeError errorBuffer (int x) (int y + 1)
                                   quantError (Num (1 / 8)) width height;
                   errorBuffer = distributeError errorBuffer (int x + 1) (int y + 1)
                                   quantError (Num (1 / 8)) width height;
                   errorBuffer = distributeError errorBuffer (int x) (int y + 2)
                                   quantError (Num (1 / 8)) width height
               in Inr (data, errorBuffer)))"

definition atkinsonDithering ::
  "byte list \<Rightarrow> nat \<Rightarrow> nat \<Rightarrow> number \<Rightarrow> rgb list \<Rightarrow> error + byte list" where
  "atkinsonDithering data width height strength paletteColors =
     (let errorBuffer = replicate (length data) (Num 0) in
      case forLoop 0 height
             (\<lambda>y. forLoop 0 width (atkinsonPixel width height strength paletteColors y))
             (data, errorBuffer) of
        Inl e \<Rightarrow> Inl e
      | Inr (data, errorBuffer) \<Rightarrow> Inr data)"

section \<open>Ordered dithering\<close>

fun getBayerMatrix :: "jsstring \<Rightarrow> error + int list list" where
  "getBayerMatrix type =
     (if type = js ''2x2'' then
        Inr [[0, 2],
             [3, 1]]
      else if type = js ''4x4'' then
        Inr [[0, 8, 2, 10],
             [12, 4, 14, 6],
             [3, 11, 1, 9],
             [15, 7, 13, 5]]
      else if type = js ''8x8'' then
        Inr [[0, 48, 12, 60, 3, 51, 15, 63],
             [32, 16, 44, 28, 35, 19, 47, 31],
             [8, 56, 4, 52, 11, 59, 7, 55],
             [40, 24, 36, 20, 43, 27, 39, 23],
             [2, 50, 14, 62, 1, 49, 13, 61],
             [34, 18, 46, 30, 33, 17, 45, 29],
             [10, 58, 6, 54, 9, 57, 5, 53],
             [42, 26, 38, 22, 41, 25, 37, 21]]
      else if type = js ''clustered 4x4'' then
        Inr [[7, 13, 11, 4],
             [12, 16, 14, 8],
             [10, 15, 6, 2],
             [5, 9, 3, 1]]
      else Inl (Error (js ''Invalid Bayer matrix type: '' @ type)))"

declare getBayerMatrix.simps [simp del]

text \<open>
  The body of the loops of \<open>orderedDithering\<close>. With an empty matrix \<open>y % matrixSize\<close> is
  \<open>NaN\<close>, \<open>bayerMatrix[NaN]\<close> is \<open>undefined\<close> and reading its entry throws; an entry
  missing from a row is \<open>undefined\<close> and makes the threshold \<open>NaN\<close>.
\<close>

definition orderedPixel ::
  "nat \<Rightarrow> number \<Rightarrow> rgb list \<Rightarrow> int list list \<Rightarrow> nat \<Rightarrow> nat
     \<Rightarrow> byte list \<Rightarrow> error + byte list" where
  "orderedPixel width strength paletteColors bayerMatrix y x data =
     (let matrixSize = length bayerMatrix;
          idx = (y * width + x) * 4;
          oldColor = (rd data idx, rd data (idx + 1), rd data (idx + 2))
      in if matrixSize = 0 then Inl TypeError
         else
           let row = bayerMatrix ! (y mod matrixSize);
               entry = ((if x mod matrixSize < length row
                         then Num (real_of_int (row ! (x mod matrixSize))) else NaN) :: number);
               threshold =
                 (((entry + Num 0.5) / Num (real (matrixSize * matrixSize))) * Num 255 :: number);
               adjustedColor =
                 (fst oldColor + (threshold - Num 127.5) * strength,
                  fst (snd oldColor) + (threshold - Num 127.5) * strength,
                  snd (snd oldColor) + (threshold - Num 127.5) * strength)
           in case findClosestPaletteColor adjustedColor paletteColors of
                Inl e \<Rightarrow> Inl e
              | Inr (n0, n1, n2) \<Rightarrow> Inr (data[idx := n0, idx + 1 := n1, idx + 2 := n2]))"

definition orderedDithering ::
  "byte list \<Rightarrow> nat \<Rightarrow> nat \<Rightarrow> number \<Rightarrow> rgb list \<Rightarrow> int list list \<Rightarrow> error + byte list" where
  "orderedDithering data width height strength paletteColors bayerMatrix =
     forLoop 0 height
       (\<lambda>y. forLoop 0 width (orderedPixel width strength paletteColors bayerMatrix y)) data"

section \<open>The quantize and dither stage of pixelate\<close>

text \<open>
  Lines 195 to 218 of \<open>pixelate\<close>, after the image has been drawn at
  \<open>pixelsWide \<times> pixelsHigh\<close> and read back with \<open>getImageData\<close>. \<open>paletteColors\<close> is
  \<open>None\<close> for \<open>null\<close> (no palette was given) and \<open>Some\<close> of the resolved colours
  otherwise; an array is truthy even when it is empty. \<open>String.prototype.toLowerCase\<close>
  belongs to the language, with its Unicode case mapping, and is a parameter here.
\<close>

definition pixelateDither ::
  "(jsstring \<Rightarrow> jsstring) \<Rightarrow> rgb list option \<Rightarrow> jsstring \<Rightarrow> number \<Rightarrow> byte list \<Rightarrow> nat \<Rightarrow> nat
     \<Rightarrow> error + byte list" where
  "pixelateDither toLowerCase paletteColors dither strength pixelatedData pixelsWide pixelsHigh =
     (let ditheringStrength = strength / Num 100 in
      case paletteColors of
        None \<Rightarrow> Inr pixelatedData
      | Some colors \<Rightarrow>
          if toLowerCase dither \<noteq> js ''none'' then
            if toLowerCase dither = js ''floyd-steinberg'' then
              floydSteinbergDithering pixelatedData pixelsWide pixelsHigh ditheringStrength colors
            else if toLowerCase dither = js ''ordered'' then
              (case getBayerMatrix (js ''8x8'') of
                 Inl e \<Rightarrow> Inl e
               | Inr bayerMatrix \<Rightarrow>
                   orderedDithering pixelatedData pixelsWide pixelsHigh ditheringStrength
                     colors bayerMatrix)
            else if toLowerCase dither = js ''4x4 bayer'' then
              (case getBayerMatrix (js ''4x4'') of
                 Inl e \<Rightarrow> Inl e
               | Inr bayerMatrix \<Rightarrow>
                   orderedDithering pixelatedData pixelsWide pixelsHigh ditheringStrength
                     colors bayerMatrix)
            else if toLowerCase dither = js ''2x2 bayer'' then
              (case getBayerMatrix (js ''2x2'') of
                 Inl e \<Rightarrow> Inl e
               | Inr bayerMatrix \<Rightarrow>
                   orderedDithering pixelatedData pixelsWide pixelsHigh ditheringStrength
                     colors bayerMatrix)
            else if toLowerCase dither = js ''clustered 4x4'' then
              (case getBayerMatrix (js ''clustered 4x4'') of
                 Inl e \<Rightarrow> Inl e
               | Inr clusteredMatrix \<Rightarrow>
                   orderedDithering pixelatedData pixelsWide pixelsHigh ditheringStrength
                     colors clusteredMatrix)
            else if toLowerCase dither = js ''atkinson'' then
              atkinsonDithering pixelatedData pixelsWide pixelsHigh ditheringStrength colors
            else Inl (Error (js ''Unknown dithering method: '' @ dither))
          else applyPalette pixelatedData colors)"

section \<open>The checks of pixelate before the stage\<close>

definition MIN_PIXEL_WIDTH :: nat where
  "MIN_PIXEL_WIDTH = 2"

definition MAX_PIXEL_WIDTH :: nat where
  "MAX_PIXEL_WIDTH = 4096"

text \<open>
  \<open>pixelate\<close> for an image that is given: the two checks of \<open>width\<close> at lines 114 to 119,
  then the stage above. \<open>pixelatedData\<close> and \<open>pixelsHigh\<close> stand for what the canvas
  returns once the image is drawn \<open>width\<close> pixels wide; loading and scaling the image
  are the platform's.
\<close>

definition pixelate ::
  "(jsstring \<Rightarrow> jsstring) \<Rightarrow> nat \<Rightarrow> jsstring \<Rightarrow> number \<Rightarrow> rgb list option \<Rightarrow> byte list \<Rightarrow> nat
     \<Rightarrow> error + byte list" where
  "pixelate toLowerCase width dither strength paletteColors pixelatedData pixelsHigh =
     (if width = 0 \<or> width < MIN_PIXEL_WIDTH then
        Inl (Error (js ''Width must be at least 2 pixels.''))
      else if width > MAX_PIXEL_WIDTH then
        Inl (Error (js ''Width cannot exceed 4096 pixels.''))
      else pixelateDither toLowerCase paletteColors dither strength pixelatedData width
             pixelsHigh)"

section \<open>The same functions with the rounding of the arithmetic\<close>

text \<open>
  JavaScript computes in IEEE doubles: each of \<open>+\<close>, \<open>-\<close>, \<open>*\<close> and \<open>/\<close> returns its exact
  result rounded to the nearest double, and a store into a \<open>Float32Array\<close> rounds once
  more, to the nearest single. Below, \<open>rnd\<close> and \<open>rnd32\<close> stand for these two roundings,
  as functions on the reals, and every operation of the source is followed by its
  rounding. The operands of the arithmetic on indices and sizes are integers far below
  \<open>2\<^sup>5\<^sup>3\<close>, on which it is exact; the coefficients 7/16, 3/16, 5/16 and 1/16 and the
  literals 0.5, 127.5 and 255 are doubles. Infinities are not modelled: the statements
  about these functions take a strength between 0 and 1 and error entries of bounded
  magnitude, where no operation overflows. With the identity for both roundings these
  are the functions defined above, as is shown at the end.
\<close>

fun addFl :: "(real \<Rightarrow> real) \<Rightarrow> number \<Rightarrow> number \<Rightarrow> number" where
  "addFl rnd (Num a) (Num b) = Num (rnd (a + b))"
| "addFl rnd _ _ = NaN"

fun subFl :: "(real \<Rightarrow> real) \<Rightarrow> number \<Rightarrow> number \<Rightarrow> number" where
  "subFl rnd (Num a) (Num b) = Num (rnd (a - b))"
| "subFl rnd _ _ = NaN"

fun mulFl :: "(real \<Rightarrow> real) \<Rightarrow> number \<Rightarrow> number \<Rightarrow> number" where
  "mulFl rnd (Num a) (Num b) = Num (rnd (a * b))"
| "mulFl rnd _ _ = NaN"

fun divFl :: "(real \<Rightarrow> real) \<Rightarrow> number \<Rightarrow> number \<Rightarrow> number" where
  "divFl rnd (Num a) (Num b) = (if b = 0 then NaN else Num (rnd (a / b)))"
| "divFl rnd _ _ = NaN"

text \<open>The value that a \<open>Float32Array\<close> keeps when a number is stored into it.\<close>

fun storeFl :: "(real \<Rightarrow> real) \<Rightarrow> number \<Rightarrow> number" where
  "storeFl rnd32 (Num a) = Num (rnd32 a)"
| "storeFl rnd32 NaN = NaN"

fun colorDistanceFl :: "(real \<Rightarrow> real) \<Rightarrow> color \<Rightarrow> rgb \<Rightarrow> number" where
  "colorDistanceFl rnd (r1, g1, b1) (r2, g2, b2) =
     (let rDiff = subFl rnd r1 (byteNum r2);
          gDiff = subFl rnd g1 (byteNum g2);
          bDiff = subFl rnd b1 (byteNum b2)
      in addFl rnd (addFl rnd (mulFl rnd rDiff rDiff) (mulFl rnd gDiff gDiff))
           (mulFl rnd bDiff bDiff))"

function closestLoopFl ::
  "(real \<Rightarrow> real) \<Rightarrow> color \<Rightarrow> rgb list \<Rightarrow> nat \<Rightarrow> rgb \<Rightarrow> number \<Rightarrow> rgb" where
  "closestLoopFl rnd color palette i closestColor closestDistance =
     (if i < length palette then
        (let currentDistance = colorDistanceFl rnd color (palette ! i) in
         if lt currentDistance closestDistance
         then closestLoopFl rnd color palette (i + 1) (palette ! i) currentDistance
         else closestLoopFl rnd color palette (i + 1) closestColor closestDistance)
      else closestColor)"
  by pat_completeness auto
termination
  by (relation "measure (\<lambda>(rnd, color, palette, i, c, d). length palette - i)") auto

declare closestLoopFl.simps [simp del]

fun findClosestPaletteColorFl :: "(real \<Rightarrow> real) \<Rightarrow> color \<Rightarrow> rgb list \<Rightarrow> error + rgb" where
  "findClosestPaletteColorFl rnd color [] = Inl TypeError"
| "findClosestPaletteColorFl rnd color (p0 # rest) =
     Inr (closestLoopFl rnd color (p0 # rest) 1 p0 (colorDistanceFl rnd color p0))"

definition distributeErrorFl ::
  "(real \<Rightarrow> real) \<Rightarrow> (real \<Rightarrow> real) \<Rightarrow> number list \<Rightarrow> int \<Rightarrow> int \<Rightarrow> color \<Rightarrow> number
     \<Rightarrow> nat \<Rightarrow> nat \<Rightarrow> number list" where
  "distributeErrorFl rnd rnd32 buffer x y quantError factor width height =
     (if x < 0 \<or> x \<ge> int width \<or> y < 0 \<or> y \<ge> int height then buffer
      else
        (case quantError of (q0, q1, q2) \<Rightarrow>
           let idx = nat ((y * int width + x) * 4);
               buffer = buffer[idx :=
                          storeFl rnd32 (addFl rnd (rdF buffer idx) (mulFl rnd q0 factor))];
               buffer = buffer[idx + 1 :=
                          storeFl rnd32 (addFl rnd (rdF buffer (idx + 1)) (mulFl rnd q1 factor))];
               buffer = buffer[idx + 2 :=
                          storeFl rnd32 (addFl rnd (rdF buffer (idx + 2)) (mulFl rnd q2 factor))]
           in buffer))"

definition fsPixelFl ::
  "(real \<Rightarrow> real) \<Rightarrow> (real \<Rightarrow> real) \<Rightarrow> nat \<Rightarrow> nat \<Rightarrow> number \<Rightarrow> rgb list \<Rightarrow> nat \<Rightarrow> nat
     \<Rightarrow> byte list \<times> number list \<Rightarrow> error + byte list \<times> number list" where
  "fsPixelFl rnd rnd32 width height strength paletteColors y x st =
     (case st of (data, errorBuffer) \<Rightarrow>
        let idx = (y * width + x) * 4;
            r = addFl rnd (rd data idx) (rdF errorBuffer idx);
            g = addFl rnd (rd data (idx + 1)) (rdF errorBuffer (idx + 1));
            b = addFl rnd (rd data (idx + 2)) (rdF errorBuffer (idx + 2))
        in (case findClosestPaletteColorFl rnd (r, g, b) paletteColors of
             Inl e \<Rightarrow> Inl e
           | Inr (n0, n1, n2) \<Rightarrow>
               let data = data[idx := n0, idx + 1 := n1, idx + 2 := n2];
                   quantError = (mulFl rnd (subFl rnd r (byteNum n0)) strength,
                                 mulFl rnd (subFl rnd g (byteNum n1)) strength,
                                 mulFl rnd (subFl rnd b (byteNum n2)) strength);
                   errorBuffer = distributeErrorFl rnd rnd32 errorBuffer (int x + 1) (int y)
                                   quantError (Num (7 / 16)) width height;
                   errorBuffer = distributeErrorFl rnd rnd32 errorBuffer (int x - 1) (int y + 1)
                                   quantError (Num (3 / 16)) width height;
                   errorBuffer = distributeErrorFl rnd rnd32 errorBuffer (int x) (int y + 1)
                                   quantError (Num (5 / 16)) width height;
                   errorBuffer = distributeErrorFl rnd rnd32 errorBuffer (int x + 1) (int y + 1)
                                   quantError (Num (1 / 16)) width height
               in Inr (data, errorBuffer)))"

definition floydSteinbergDitheringFl ::
  "(real \<Rightarrow> real) \<Rightarrow> (real \<Rightarrow> real) \<Rightarrow> byte list \<Rightarrow> nat \<Rightarrow> nat \<Rightarrow> number \<Rightarrow> rgb list
     \<Rightarrow> error + byte list" where
  "floydSteinbergDitheringFl rnd rnd32 data width height strength paletteColors =
     (let errorBuffer = replicate (length data) (Num 0) in
      case forLoop 0 height
             (\<lambda>y. forLoop 0 width (fsPixelFl rnd rnd32 width height strength paletteColors y))
             (data, errorBuffer) of
        Inl e \<Rightarrow> Inl e
      | Inr (data, errorBuffer) \<Rightarrow> Inr data)"

definition orderedPixelFl ::
  "(real \<Rightarrow> real) \<Rightarrow> nat \<Rightarrow> number \<Rightarrow> rgb list \<Rightarrow> int list list \<Rightarrow> nat \<Rightarrow> nat
     \<Rightarrow> byte list \<Rightarrow> error + byte list" where
  "orderedPixelFl rnd width strength paletteColors bayerMatrix y x data =
     (let matrixSize = length bayerMatrix;
          idx = (y * width + x) * 4;
          oldColor = (rd data idx, rd data (idx + 1), rd data (idx + 2))
      in if matrixSize = 0 then Inl TypeError
         else
           let row = bayerMatrix ! (y mod matrixSize);
               entry = ((if x mod matrixSize < length row
                         then Num (real_of_int (row ! (x mod matrixSize))) else NaN) :: number);
               threshold =
                 mulFl rnd
                   (divFl rnd (addFl rnd entry (Num 0.5)) (Num (real (matrixSize * matrixSize))))
                   (Num 255);
               adjustedColor =
                 (addFl rnd (fst oldColor) (mulFl rnd (subFl rnd threshold (Num 127.5)) strength),
                  addFl rnd (fst (snd oldColor))
                    (mulFl rnd (subFl rnd threshold (Num 127.5)) strength),
                  addFl rnd (snd (snd oldColor))
                    (mulFl rnd (subFl rnd threshold (Num 127.5)) strength))
           in case findClosestPaletteColorFl rnd adjustedColor paletteColors of
                Inl e \<Rightarrow> Inl e
              | Inr (n0, n1, n2) \<Rightarrow> Inr (data[idx := n0, idx + 1 := n1, idx + 2 := n2]))"

definition orderedDitheringFl ::
  "(real \<Rightarrow> real) \<Rightarrow> byte list \<Rightarrow> nat \<Rightarrow> nat \<Rightarrow> number \<Rightarrow> rgb list \<Rightarrow> int list list
     \<Rightarrow> error + byte list" where
  "orderedDitheringFl rnd data width height strength paletteColors bayerMatrix =
     forLoop 0 height
       (\<lambda>y. forLoop 0 width (orderedPixelFl rnd width strength paletteColors bayerMatrix y))
       data"

section \<open>Auxiliary notions for the statements\<close>

text \<open>The squared Euclidean distance of the specification, on real channel values.\<close>

definition sqDist :: "real \<times> real \<times> real \<Rightarrow> rgb \<Rightarrow> real" where
  "sqDist c p =
     (case c of (r, g, b) \<Rightarrow> case p of (pr, pg, pb) \<Rightarrow>
        (r - byteVal pr)\<^sup>2 + (g - byteVal pg)\<^sup>2 + (b - byteVal pb)\<^sup>2)"

text \<open>Channel \<open>i\<close> of a palette colour; the three reads \<open>data[idx]\<close>, \<open>data[idx + 1]\<close>,
  \<open>data[idx + 2]\<close> and the three writes to the same places; the palette colour that
  \<open>findClosestPaletteColor\<close> returns; and the buffer \<open>D\<close> after the colours of its first
  \<open>k\<close> pixels have been replaced by \<open>f 0\<close>, ..., \<open>f (k - 1)\<close>.\<close>

definition channel :: "rgb \<Rightarrow> nat \<Rightarrow> byte" where
  "channel c i = (case c of (r, g, b) \<Rightarrow> if i = 0 then r else if i = 1 then g else b)"

definition getRGB :: "byte list \<Rightarrow> nat \<Rightarrow> color" where
  "getRGB data idx = (rd data idx, rd data (idx + 1), rd data (idx + 2))"

definition setRGB :: "byte list \<Rightarrow> nat \<Rightarrow> rgb \<Rightarrow> byte list" where
  "setRGB data idx c = (case c of (n0, n1, n2) \<Rightarrow> data[idx := n0, idx + 1 := n1, idx + 2 := n2])"

definition nearest :: "color \<Rightarrow> rgb list \<Rightarrow> rgb" where
  "nearest c P = (case findClosestPaletteColor c P of Inr q \<Rightarrow> q | Inl e \<Rightarrow> (0, 0, 0))"

definition paint :: "(nat \<Rightarrow> rgb) \<Rightarrow> nat \<Rightarrow> byte list \<Rightarrow> byte list" where
  "paint f k D =
     map (\<lambda>j. if j div 4 < k \<and> j mod 4 \<noteq> 3 then channel (f (j div 4)) (j mod 4) else D ! j)
       [0..<length D]"

text \<open>Running a list of steps in order, stopping at the first error, and the pixel
  coordinates \<open>(x, y)\<close> in raster order: row by row from the top, each row from the left.\<close>

primrec foldE :: "('a \<Rightarrow> 's \<Rightarrow> error + 's) \<Rightarrow> 'a list \<Rightarrow> 's \<Rightarrow> error + 's" where
  "foldE f [] s = Inr s"
| "foldE f (a # as) s = (case f a s of Inl e \<Rightarrow> Inl e | Inr s' \<Rightarrow> foldE f as s')"

definition rasterOrder :: "nat \<Rightarrow> nat \<Rightarrow> (nat \<times> nat) list" where
  "rasterOrder width height = concat (map (\<lambda>y. map (\<lambda>x. (x, y)) [0..<width]) [0..<height])"

text \<open>The colour that \<open>orderedPixel\<close> quantizes: the old colour moved by the
  threshold of the matrix at \<open>(x mod size, y mod size)\<close>.\<close>

definition orderedAdjusted :: "int list list \<Rightarrow> number \<Rightarrow> color \<Rightarrow> nat \<Rightarrow> nat \<Rightarrow> color" where
  "orderedAdjusted bayerMatrix strength oldColor y x =
     (let matrixSize = length bayerMatrix;
          row = bayerMatrix ! (y mod matrixSize);
          entry = ((if x mod matrixSize < length row
                    then Num (real_of_int (row ! (x mod matrixSize))) else NaN) :: number);
          threshold =
            (((entry + Num 0.5) / Num (real (matrixSize * matrixSize))) * Num 255 :: number)
      in (fst oldColor + (threshold - Num 127.5) * strength,
          fst (snd oldColor) + (threshold - Num 127.5) * strength,
          snd (snd oldColor) + (threshold - Num 127.5) * strength))"

text \<open>The alpha bytes, at the places \<open>4 * k + 3\<close>, and the length of \<open>D\<close> are those of \<open>d\<close>.\<close>

definition sameAlpha :: "byte list \<Rightarrow> byte list \<Rightarrow> bool" where
  "sameAlpha D d \<longleftrightarrow> length d = length D \<and> (\<forall>j<length D. j mod 4 = 3 \<longrightarrow> d ! j = D ! j)"

text \<open>The names of the dithering algorithms that \<open>pixelate\<close> documents and dispatches on,
  and what \<open>toLowerCase\<close> does to a string of ASCII characters: \<open>A\<close> to \<open>Z\<close> become \<open>a\<close> to
  \<open>z\<close>. It is used on ASCII names only.\<close>

definition asciiToLowerCase :: "jsstring \<Rightarrow> jsstring" where
  "asciiToLowerCase s = map (\<lambda>u. if 65 \<le> unat u \<and> unat u \<le> 90 then u + 32 else u) s"

definition recognizedDithers :: "string list" where
  "recognizedDithers =
     [''none'', ''floyd-steinberg'', ''atkinson'', ''ordered'', ''2x2 bayer'', ''4x4 bayer'',
      ''clustered 4x4'']"

text \<open>Channel \<open>i\<close> of a colour that is being quantized, and the fraction of the
  quantization error that the Floyd-Steinberg kernel of the specification gives to the
  pixel at offset \<open>(dx, dy)\<close>: 7/16 to the right, 3/16 below left, 5/16 below, 1/16 below
  right, nothing elsewhere.\<close>

definition colorChannel :: "color \<Rightarrow> nat \<Rightarrow> number" where
  "colorChannel c i = (case c of (r, g, b) \<Rightarrow> if i = 0 then r else if i = 1 then g else b)"

definition fsWeight :: "int \<Rightarrow> int \<Rightarrow> real" where
  "fsWeight dx dy =
     (if dx = 1 \<and> dy = 0 then 7 / 16
      else if dx = - 1 \<and> dy = 1 then 3 / 16
      else if dx = 0 \<and> dy = 1 then 5 / 16
      else if dx = 1 \<and> dy = 1 then 1 / 16
      else 0)"

text \<open>With the rounding of the source: the squared distance that \<open>colorDistanceFl\<close>
  computes for a colour of real channels, the palette colour that
  \<open>findClosestPaletteColorFl\<close> returns, the threshold
  \<open>(matrix[y % size][x % size] + 0.5) / size\<^sup>2 * 255\<close> of the specification, a channel
  \<open>c\<close> moved by \<open>(threshold - 127.5) * strength\<close>, and the colour that \<open>orderedPixelFl\<close>
  quantizes.\<close>

definition sqDistFl :: "(real \<Rightarrow> real) \<Rightarrow> real \<times> real \<times> real \<Rightarrow> rgb \<Rightarrow> real" where
  "sqDistFl rnd c p =
     (case c of (r, g, b) \<Rightarrow> case p of (pr, pg, pb) \<Rightarrow>
        rnd (rnd (rnd (rnd (r - byteVal pr) * rnd (r - byteVal pr))
                  + rnd (rnd (g - byteVal pg) * rnd (g - byteVal pg)))
             + rnd (rnd (b - byteVal pb) * rnd (b - byteVal pb))))"

definition nearestFl :: "(real \<Rightarrow> real) \<Rightarrow> color \<Rightarrow> rgb list \<Rightarrow> rgb" where
  "nearestFl rnd c P =
     (case findClosestPaletteColorFl rnd c P of Inr q \<Rightarrow> q | Inl e \<Rightarrow> (0, 0, 0))"

definition bayerThresholdFl :: "(real \<Rightarrow> real) \<Rightarrow> int list list \<Rightarrow> nat \<Rightarrow> nat \<Rightarrow> real" where
  "bayerThresholdFl rnd matrix x y =
     (let n = length matrix
      in rnd (rnd (rnd (real_of_int (matrix ! (y mod n) ! (x mod n)) + 0.5) / real (n * n))
              * 255))"

definition perturbFl :: "(real \<Rightarrow> real) \<Rightarrow> real \<Rightarrow> real \<Rightarrow> real \<Rightarrow> real" where
  "perturbFl rnd threshold strength c = rnd (c + rnd (rnd (threshold - 127.5) * strength))"

definition orderedAdjustedFl ::
  "(real \<Rightarrow> real) \<Rightarrow> int list list \<Rightarrow> number \<Rightarrow> color \<Rightarrow> nat \<Rightarrow> nat \<Rightarrow> color" where
  "orderedAdjustedFl rnd bayerMatrix strength oldColor y x =
     (let matrixSize = length bayerMatrix;
          row = bayerMatrix ! (y mod matrixSize);
          entry = ((if x mod matrixSize < length row
                    then Num (real_of_int (row ! (x mod matrixSize))) else NaN) :: number);
          threshold =
            mulFl rnd
              (divFl rnd (addFl rnd entry (Num 0.5)) (Num (real (matrixSize * matrixSize))))
              (Num 255)
      in (addFl rnd (fst oldColor) (mulFl rnd (subFl rnd threshold (Num 127.5)) strength),
          addFl rnd (fst (snd oldColor)) (mulFl rnd (subFl rnd threshold (Num 127.5)) strength),
          addFl rnd (snd (snd oldColor)) (mulFl rnd (subFl rnd threshold (Num 127.5)) strength)))"

text \<open>Channel \<open>i\<close> of a colour of real channels.\<close>

definition realChannel :: "real \<times> real \<times> real \<Rightarrow> nat \<Rightarrow> real" where
  "realChannel c i = (case c of (r, g, b) \<Rightarrow> if i = 0 then r else if i = 1 then g else b)"

text \<open>The value of a number that is not \<open>NaN\<close>.\<close>

fun numVal :: "number \<Rightarrow> real" where
  "numVal (Num v) = v"
| "numVal NaN = 0"

section \<open>Properties of the nearest palette colour\<close>

lemma colorDistance_Num:
  "colorDistance (Num r, Num g, Num b) p = Num (sqDist (r, g, b) p)"
  by (cases p) (simp add: sqDist_def byteNum_def power2_eq_square)

lemma closestLoop_scan:
  assumes "k < i" "i \<le> length P" "cc = P ! k" "cd = Num (sqDist c (P ! k))"
    "\<forall>j<i. sqDist c (P ! k) \<le> sqDist c (P ! j)"
    "\<forall>j<k. sqDist c (P ! k) < sqDist c (P ! j)"
    "c = (r, g, b)"
  shows "\<exists>m<length P. closestLoop (Num r, Num g, Num b) P i cc cd = P ! m
           \<and> (\<forall>j<length P. sqDist c (P ! m) \<le> sqDist c (P ! j))
           \<and> (\<forall>j<m. sqDist c (P ! m) < sqDist c (P ! j))"
  using assms
proof (induction "length P - i" arbitrary: i k cc cd)
  case 0
  then have "i = length P" by simp
  with 0 show ?case
    by (subst closestLoop.simps) auto
next
  case (Suc n)
  then have lt_i: "i < length P" by simp
  show ?case
  proof (cases "sqDist c (P ! i) < sqDist c (P ! k)")
    case True
    have step: "closestLoop (Num r, Num g, Num b) P i cc cd
        = closestLoop (Num r, Num g, Num b) P (i + 1) (P ! i) (Num (sqDist c (P ! i)))"
      using lt_i True Suc.prems
      by (subst closestLoop.simps) (simp add: colorDistance_Num)
    have "\<forall>j<i + 1. sqDist c (P ! i) \<le> sqDist c (P ! j)"
    proof (intro allI impI)
      fix j assume "j < i + 1"
      then consider "j < i" | "j = i" by linarith
      then show "sqDist c (P ! i) \<le> sqDist c (P ! j)"
        using True Suc.prems(5) by cases force+
    qed
    moreover have "\<forall>j<i. sqDist c (P ! i) < sqDist c (P ! j)"
      using True Suc.prems(5) by force
    ultimately show ?thesis
      unfolding step
      using Suc.hyps(1) [of "i + 1" i "P ! i" "Num (sqDist c (P ! i))"] Suc.hyps(2) lt_i
        Suc.prems(7)
      by simp
  next
    case False
    have step: "closestLoop (Num r, Num g, Num b) P i cc cd
        = closestLoop (Num r, Num g, Num b) P (i + 1) cc cd"
      using lt_i False Suc.prems
      by (subst closestLoop.simps) (simp add: colorDistance_Num)
    have "\<forall>j<i + 1. sqDist c (P ! k) \<le> sqDist c (P ! j)"
    proof (intro allI impI)
      fix j assume "j < i + 1"
      then consider "j < i" | "j = i" by linarith
      then show "sqDist c (P ! k) \<le> sqDist c (P ! j)"
        using False Suc.prems(5) by cases force+
    qed
    then show ?thesis
      unfolding step
      using Suc.hyps(1) [of "i + 1" k cc cd] Suc.hyps(2) lt_i Suc.prems
      by simp
  qed
qed

text \<open>
  C1. For a non-empty palette \<open>P\<close> and a colour \<open>(r, g, b)\<close>, \<open>findClosestPaletteColor\<close>
  returns the entry \<open>P ! k\<close> of \<open>P\<close> whose squared Euclidean distance to the colour is
  minimal among all entries, and \<open>k\<close> is the earliest index that attains the minimum.
  \<open>colorDistance\<close> is that squared distance.
\<close>

theorem findClosestPaletteColor_nearest:
  assumes "P \<noteq> []"
  shows "\<exists>k<length P.
           findClosestPaletteColor (Num r, Num g, Num b) P = Inr (P ! k)
           \<and> colorDistance (Num r, Num g, Num b) (P ! k) = Num (sqDist (r, g, b) (P ! k))
           \<and> (\<forall>j<length P. sqDist (r, g, b) (P ! k) \<le> sqDist (r, g, b) (P ! j))
           \<and> (\<forall>j<k. sqDist (r, g, b) (P ! k) < sqDist (r, g, b) (P ! j))"
proof -
  obtain p0 rest where P: "P = p0 # rest"
    using assms by (cases P) auto
  have "\<exists>m<length P. closestLoop (Num r, Num g, Num b) P 1 (P ! 0)
            (Num (sqDist (r, g, b) (P ! 0))) = P ! m
           \<and> (\<forall>j<length P. sqDist (r, g, b) (P ! m) \<le> sqDist (r, g, b) (P ! j))
           \<and> (\<forall>j<m. sqDist (r, g, b) (P ! m) < sqDist (r, g, b) (P ! j))"
    by (rule closestLoop_scan [where k = 0]) (simp_all add: P)
  then show ?thesis
    by (simp add: P colorDistance_Num)
qed

theorem findClosestPaletteColor_nearest_witness:
  "[(0, 0, 0), (255, 255, 255)] \<noteq> ([] :: rgb list)
   \<and> findClosestPaletteColor (Num 200, Num 100, Num 50) [(0, 0, 0), (255, 255, 255)]
       = Inr (0, 0, 0)"
proof -
  let ?P = "[(0, 0, 0), (255, 255, 255)] :: rgb list"
  have ne: "?P \<noteq> []" by simp
  obtain k where k: "k < length ?P"
    and res: "findClosestPaletteColor (Num 200, Num 100, Num 50) ?P = Inr (?P ! k)"
    and least: "\<forall>j<length ?P. sqDist (200, 100, 50) (?P ! k) \<le> sqDist (200, 100, 50) (?P ! j)"
    using findClosestPaletteColor_nearest [OF ne, of 200 100 50] by blast
  have "k = 0 \<or> k = 1" using k by auto
  moreover have "k \<noteq> 1"
  proof
    assume k1: "k = 1"
    have "0 < length ?P" by simp
    with least have "sqDist (200, 100, 50) (?P ! k) \<le> sqDist (200, 100, 50) (?P ! 0)"
      by blast
    with k1 show False by (simp add: sqDist_def byteVal_def)
  qed
  ultimately have "k = 0" by simp
  with res ne show ?thesis by simp
qed

section \<open>Flat quantization, pixel by pixel\<close>

lemma plus_NaN [simp]: "x + NaN = NaN" "NaN + x = NaN"
  by (cases x; simp)+

lemma minus_NaN [simp]: "x - NaN = NaN" "NaN - x = NaN"
  by (cases x; simp)+

lemma times_NaN [simp]: "x * NaN = NaN" "NaN * x = NaN"
  by (cases x; simp)+

lemma lt_NaN [simp]: "lt x NaN = False" "lt NaN x = False"
  by (cases x; simp)+

lemma findClosest_nearest: "P \<noteq> [] \<Longrightarrow> findClosestPaletteColor c P = Inr (nearest c P)"
  by (cases P) (simp_all add: nearest_def)

lemma closestLoop_mem: "cc \<in> set P \<Longrightarrow> closestLoop c P i cc cd \<in> set P"
proof (induction c P i cc cd rule: closestLoop.induct)
  case (1 color palette i closestColor closestDistance)
  then show ?case
    by (subst closestLoop.simps) (auto simp: Let_def)
qed

lemma nearest_mem:
  assumes "P \<noteq> []"
  shows "nearest c P \<in> set P"
proof (cases P)
  case Nil
  with assms show ?thesis by simp
next
  case (Cons p0 rest)
  have "closestLoop c (p0 # rest) 1 p0 (colorDistance c p0) \<in> set (p0 # rest)"
    by (rule closestLoop_mem) simp
  then show ?thesis
    by (simp add: nearest_def Cons)
qed

lemma closestLoop_NaN:
  "(\<And>p. colorDistance c p = NaN) \<Longrightarrow> closestLoop c P i cc cd = cc"
proof (induction c P i cc cd rule: closestLoop.induct)
  case (1 color palette i closestColor closestDistance)
  then show ?case
    by (subst closestLoop.simps) (simp add: Let_def)
qed

lemma nearest_NaN:
  "P \<noteq> [] \<Longrightarrow> (\<And>p. colorDistance c p = NaN) \<Longrightarrow> nearest c P = hd P"
  by (cases P) (simp_all add: nearest_def closestLoop_NaN)

lemma colorDistance_NaN3 [simp]: "colorDistance (a, b, NaN) p = NaN"
  by (cases p) (simp add: Let_def)

lemma colorDistance_NaN2 [simp]: "colorDistance (a, NaN, b) p = NaN"
  by (cases p) (simp add: Let_def)

lemma findClosest_least:
  assumes "P \<noteq> []"
  shows "\<exists>k<length P. findClosestPaletteColor (Num r, Num g, Num b) P = Inr (P ! k)
           \<and> (\<forall>j<length P. sqDist (r, g, b) (P ! k) \<le> sqDist (r, g, b) (P ! j))"
proof -
  obtain p0 rest where P: "P = p0 # rest"
    using assms by (cases P) auto
  have "\<exists>m<length P. closestLoop (Num r, Num g, Num b) P 1 (P ! 0)
            (Num (sqDist (r, g, b) (P ! 0))) = P ! m
           \<and> (\<forall>j<length P. sqDist (r, g, b) (P ! m) \<le> sqDist (r, g, b) (P ! j))
           \<and> (\<forall>j<m. sqDist (r, g, b) (P ! m) < sqDist (r, g, b) (P ! j))"
    by (rule closestLoop_scan [where k = 0]) (simp_all add: P)
  then show ?thesis
    by (auto simp add: P colorDistance_Num)
qed

lemma byteVal_eq_iff [simp]: "byteVal a = byteVal b \<longleftrightarrow> a = b"
  by (auto simp: byteVal_def word_eq_iff_unsigned [where ?'a = real, symmetric])

lemma sqDist_zero_iff:
  "sqDist (byteVal n0, byteVal n1, byteVal n2) p = 0 \<longleftrightarrow> p = (n0, n1, n2)"
proof (cases p)
  case (fields pr pg pb)
  have "(byteVal n0 - byteVal pr)\<^sup>2 + (byteVal n1 - byteVal pg)\<^sup>2
          + (byteVal n2 - byteVal pb)\<^sup>2 = 0
        \<longleftrightarrow> byteVal n0 = byteVal pr \<and> byteVal n1 = byteVal pg \<and> byteVal n2 = byteVal pb"
    by (simp add: add_nonneg_eq_0_iff)
  then show ?thesis
    by (auto simp: sqDist_def fields)
qed

lemma sqDist_nonneg: "0 \<le> sqDist c p"
  by (cases c; cases p) (simp add: sqDist_def)

lemma nearest_self:
  assumes "(n0, n1, n2) \<in> set P"
  shows "nearest (byteNum n0, byteNum n1, byteNum n2) P = (n0, n1, n2)"
proof -
  let ?c = "(byteVal n0, byteVal n1, byteVal n2)"
  have ne: "P \<noteq> []" using assms by auto
  obtain k where k: "k < length P"
    and res: "findClosestPaletteColor (Num (byteVal n0), Num (byteVal n1), Num (byteVal n2)) P
                = Inr (P ! k)"
    and least: "\<forall>j<length P. sqDist ?c (P ! k) \<le> sqDist ?c (P ! j)"
    using findClosest_least [OF ne] by blast
  obtain j where j: "j < length P" "P ! j = (n0, n1, n2)"
    using assms by (auto simp: in_set_conv_nth)
  have "sqDist ?c (P ! j) = 0"
    using j sqDist_zero_iff [of n0 n1 n2 "P ! j"] by simp
  with least j have "sqDist ?c (P ! k) \<le> 0" by force
  with sqDist_nonneg [of ?c "P ! k"] have "sqDist ?c (P ! k) = 0" by simp
  then have "P ! k = (n0, n1, n2)"
    by (simp only: sqDist_zero_iff)
  with res show ?thesis
    by (simp add: nearest_def byteNum_def)
qed


lemma paint_length [simp]: "length (paint f k D) = length D"
  by (simp add: paint_def)

lemma paint_nth:
  "j < length D \<Longrightarrow>
   paint f k D ! j = (if j div 4 < k \<and> j mod 4 \<noteq> 3 then channel (f (j div 4)) (j mod 4) else D ! j)"
  by (simp add: paint_def)

lemma paint_0 [simp]: "paint f 0 D = D"
  by (rule nth_equalityI) (simp_all add: paint_nth)

lemma setRGB_length [simp]: "length (setRGB data idx c) = length data"
  by (cases c) (simp add: setRGB_def)

lemma setRGB_nth:
  "j < length data \<Longrightarrow>
   setRGB data idx c ! j =
     (if j = idx then channel c 0 else if j = idx + 1 then channel c 1
      else if j = idx + 2 then channel c 2 else data ! j)"
  by (cases c) (simp add: setRGB_def channel_def nth_list_update)

lemma paint_step: "setRGB (paint f k D) (4 * k) (f k) = paint f (k + 1) D"
proof (rule nth_equalityI)
  show "length (setRGB (paint f k D) (4 * k) (f k)) = length (paint f (k + 1) D)"
    by simp
next
  fix j
  assume "j < length (setRGB (paint f k D) (4 * k) (f k))"
  then have j: "j < length D" by simp
  define q where "q = j div 4"
  define m where "m = j mod 4"
  have jqm: "j = 4 * q + m" and m4: "m < 4"
    by (simp_all add: q_def m_def)
  have L: "setRGB (paint f k D) (4 * k) (f k) ! j =
     (if j = 4 * k then channel (f k) 0 else if j = 4 * k + 1 then channel (f k) 1
      else if j = 4 * k + 2 then channel (f k) 2 else paint f k D ! j)"
    by (rule setRGB_nth) (simp add: j)
  have R: "paint f (k + 1) D ! j =
     (if q < k + 1 \<and> m \<noteq> 3 then channel (f q) m else D ! j)"
    unfolding q_def m_def by (rule paint_nth [OF j])
  have M: "paint f k D ! j =
     (if q < k \<and> m \<noteq> 3 then channel (f q) m else D ! j)"
    unfolding q_def m_def by (rule paint_nth [OF j])
  consider "q = k" "m = 0" | "q = k" "m = 1" | "q = k" "m = 2" | "q \<noteq> k \<or> m = 3"
    using m4 by linarith
  then show "setRGB (paint f k D) (4 * k) (f k) ! j = paint f (k + 1) D ! j"
  proof cases
    case 1
    then show ?thesis unfolding L R by (simp add: jqm)
  next
    case 2
    then show ?thesis unfolding L R by (simp add: jqm)
  next
    case 3
    then show ?thesis unfolding L R by (simp add: jqm)
  next
    case 4
    have ne: "j \<noteq> 4 * k + c" if c: "c < 3" for c
    proof
      assume "j = 4 * k + c"
      then have "q = k" "m = c"
        using c by (simp_all add: q_def m_def)
      with 4 c show False by auto
    qed
    have "j \<noteq> 4 * k" "j \<noteq> 4 * k + 1" "j \<noteq> 4 * k + 2"
      using ne [of 0] ne [of 1] ne [of 2] by simp_all
    moreover have "(q < k + 1 \<and> m \<noteq> 3) = (q < k \<and> m \<noteq> 3)"
      using 4 by auto
    ultimately show ?thesis
      unfolding L R M by simp
  qed
qed

lemma rd_paint: "rd (paint f k D) (4 * k + c) = rd D (4 * k + c)"
proof -
  have "\<not> (4 * k + c) div 4 < k" by simp
  then show ?thesis
    by (simp add: rd_def paint_nth)
qed

lemma getRGB_paint: "getRGB (paint f k D) (4 * k) = getRGB D (4 * k)"
  using rd_paint [of f k D 0] rd_paint [of f k D 1] rd_paint [of f k D 2]
  by (simp add: getRGB_def)

lemma paint_beyond:
  assumes "length D \<le> 4 * k"
  shows "paint f k D = paint f (length D) D"
proof (rule nth_equalityI)
  show "length (paint f k D) = length (paint f (length D) D)" by simp
next
  fix j
  assume "j < length (paint f k D)"
  then have j: "j < length D" by simp
  then have "j < k * 4" using assms by simp
  then have "j div 4 < k"
    by (simp add: div_less_iff_less_mult)
  moreover have "j div 4 < length D"
    using j by (rule le_less_trans [OF div_le_dividend])
  ultimately show "paint f k D ! j = paint f (length D) D ! j"
    using j by (simp add: paint_nth)
qed

lemma applyPaletteLoop_unfold:
  "applyPaletteLoop i data P =
     (if i < length data then
        (case findClosestPaletteColor (getRGB data i) P of
           Inl e \<Rightarrow> Inl e
         | Inr c \<Rightarrow> applyPaletteLoop (i + 4) (setRGB data i c) P)
      else Inr data)"
  by (subst applyPaletteLoop.simps)
     (simp add: getRGB_def setRGB_def Let_def split: sum.split prod.split)



lemma applyPaletteLoop_paint:
  assumes "P \<noteq> []" "\<And>k. f k = nearest (getRGB D (4 * k)) P"
  shows "applyPaletteLoop (4 * k) (paint f k D) P = Inr (paint f (length D) D)"
proof (induction "length D - 4 * k" arbitrary: k rule: less_induct)
  case less
  show ?case
  proof (cases "4 * k < length D")
    case True
    have "applyPaletteLoop (4 * k) (paint f k D) P
            = applyPaletteLoop (4 * k + 4) (setRGB (paint f k D) (4 * k) (f k)) P"
      using True
      by (subst applyPaletteLoop_unfold)
         (simp add: getRGB_paint findClosest_nearest [OF assms(1)] assms(2))
    also have "\<dots> = applyPaletteLoop (4 * (k + 1)) (paint f (k + 1) D) P"
    proof -
      have "4 * k + 4 = 4 * (k + 1)" by simp
      then show ?thesis by (simp only: paint_step)
    qed
    also have "\<dots> = Inr (paint f (length D) D)"
      using less [of "k + 1"] True by simp
    finally show ?thesis .
  next
    case False
    then have "paint f k D = paint f (length D) D"
      by (intro paint_beyond) simp
    with False show ?thesis
      by (subst applyPaletteLoop_unfold) simp
  qed
qed

lemma applyPalette_paint:
  assumes "P \<noteq> []"
  shows "applyPalette D P = Inr (paint (\<lambda>k. nearest (getRGB D (4 * k)) P) (length D) D)"
  using applyPaletteLoop_paint [OF assms, of "\<lambda>k. nearest (getRGB D (4 * k)) P" D 0]
  by (simp add: applyPalette_def)



lemma div4: "c < 4 \<Longrightarrow> (4 * k + c) div 4 = (k :: nat)"
  by simp

lemma mod4: "c < 4 \<Longrightarrow> (4 * k + c) mod 4 = (c :: nat)"
  by simp

lemma getRGB_full:
  "idx + 2 < length data \<Longrightarrow>
   getRGB data idx = (byteNum (data ! idx), byteNum (data ! (idx + 1)), byteNum (data ! (idx + 2)))"
  by (simp add: getRGB_def rd_def)

lemma getRGB_partial:
  "\<not> idx + 2 < length data \<Longrightarrow> \<exists>a b. getRGB data idx = (a, b, NaN)"
  by (simp add: getRGB_def rd_def)

lemma nearest_getRGB_partial:
  assumes "P \<noteq> []" "\<not> idx + 2 < length data"
  shows "nearest (getRGB data idx) P = hd P"
proof -
  obtain a b where "getRGB data idx = (a, b, NaN)"
    using getRGB_partial [OF assms(2)] by blast
  then show ?thesis
    using nearest_NaN [OF assms(1), of "(a, b, NaN)"] by simp
qed

lemma channel_triple: "(channel c 0, channel c 1, channel c 2) = c"
  by (cases c) (simp add: channel_def)

text \<open>
  C9. Flat quantization is idempotent: for every buffer \<open>B\<close> and non-empty palette \<open>P\<close>,
  \<open>applyPalette\<close> returns a buffer \<open>B1\<close>, and applied to \<open>B1\<close> it returns \<open>B1\<close> again.
\<close>

theorem applyPalette_idempotent:
  assumes "P \<noteq> []"
  shows "\<exists>B1. applyPalette B P = Inr B1 \<and> applyPalette B1 P = Inr B1"
proof -
  let ?f = "\<lambda>k. nearest (getRGB B (4 * k)) P"
  let ?Q = "paint ?f (length B) B"
  let ?g = "\<lambda>k. nearest (getRGB ?Q (4 * k)) P"
  have first: "applyPalette B P = Inr ?Q"
    by (rule applyPalette_paint [OF assms])
  have second: "applyPalette ?Q P = Inr (paint ?g (length ?Q) ?Q)"
    by (rule applyPalette_paint [OF assms])
  have same: "?g k = ?f k" if k: "4 * k < length B" for k
  proof (cases "4 * k + 2 < length B")
    case True
    have d: "(4 * k) div 4 = k" "(4 * k + 1) div 4 = k" "(4 * k + 2) div 4 = k"
      "(4 * k) mod 4 = 0" "(4 * k + 1) mod 4 = 1" "(4 * k + 2) mod 4 = 2"
      using div4 [of 0 k] div4 [of 1 k] div4 [of 2 k] mod4 [of 0 k] mod4 [of 1 k] mod4 [of 2 k]
      by simp_all
    have kl: "k < length B" using k by simp
    have q0: "?Q ! (4 * k) = channel (?f k) 0"
      using True by (subst paint_nth) (simp_all only: d kl, simp_all)
    have q1: "?Q ! (4 * k + 1) = channel (?f k) 1"
      using True by (subst paint_nth) (simp_all only: d kl, simp_all)
    have q2: "?Q ! (4 * k + 2) = channel (?f k) 2"
      using True by (subst paint_nth) (simp_all only: d kl, simp_all)
    have "getRGB ?Q (4 * k)
            = (byteNum (channel (?f k) 0), byteNum (channel (?f k) 1), byteNum (channel (?f k) 2))"
      using True by (subst getRGB_full) (simp_all only: q0 q1 q2 paint_length)
    moreover have "(channel (?f k) 0, channel (?f k) 1, channel (?f k) 2) \<in> set P"
      by (simp only: channel_triple nearest_mem [OF assms])
    ultimately have "?g k = (channel (?f k) 0, channel (?f k) 1, channel (?f k) 2)"
      by (simp only: nearest_self)
    then show ?thesis by (simp only: channel_triple)
  next
    case False
    then have "\<not> 4 * k + 2 < length ?Q" by simp
    then have "?g k = hd P"
      by (rule nearest_getRGB_partial [OF assms])
    moreover have "?f k = hd P"
      using False by (rule nearest_getRGB_partial [OF assms])
    ultimately show ?thesis by simp
  qed
  have "paint ?g (length ?Q) ?Q = ?Q"
  proof (rule nth_equalityI)
    show "length (paint ?g (length ?Q) ?Q) = length ?Q" by simp
  next
    fix j
    assume "j < length (paint ?g (length ?Q) ?Q)"
    then have j: "j < length B" by simp
    then have jq: "j < length ?Q" by simp
    have "4 * (j div 4) \<le> j" by simp
    then have k: "4 * (j div 4) < length B" "j div 4 < length B"
      using j by linarith+
    have "paint ?g (length ?Q) ?Q ! j
            = (if j div 4 < length ?Q \<and> j mod 4 \<noteq> 3
               then channel (?g (j div 4)) (j mod 4) else ?Q ! j)"
      by (rule paint_nth [OF jq])
    also have "\<dots> = (if j mod 4 \<noteq> 3 then channel (?f (j div 4)) (j mod 4) else ?Q ! j)"
      using same [OF k(1)] k(2) by (simp only: paint_length simp_thms)
    also have "\<dots> = ?Q ! j"
      using k(2) by (simp add: paint_nth [OF j])
    finally show "paint ?g (length ?Q) ?Q ! j = ?Q ! j" .
  qed
  then have "applyPalette ?Q P = Inr ?Q"
    using second by (simp only:)
  with first show ?thesis by blast
qed

theorem applyPalette_idempotent_witness:
  "[(0, 0, 0), (255, 255, 255)] \<noteq> ([] :: rgb list)
   \<and> applyPalette [200, 100, 50, 255, 250, 251, 252, 7] [(0, 0, 0), (255, 255, 255)]
       = Inr [0, 0, 0, 255, 255, 255, 255, 7]
   \<and> applyPalette [0, 0, 0, 255, 255, 255, 255, 7] [(0, 0, 0), (255, 255, 255)]
       = Inr [0, 0, 0, 255, 255, 255, 255, 7]"
proof -
  let ?P = "[(0, 0, 0), (255, 255, 255)] :: rgb list"
  let ?B = "[200, 100, 50, 255, 250, 251, 252, 7] :: byte list"
  have ne: "?P \<noteq> []" by simp
  have once: "applyPalette ?B ?P = Inr [0, 0, 0, 255, 255, 255, 255, 7]"
    by code_simp
  obtain B1 where "applyPalette ?B ?P = Inr B1" "applyPalette B1 ?P = Inr B1"
    using applyPalette_idempotent [OF ne, of ?B] by blast
  with once ne show ?thesis by simp
qed

section \<open>Loops\<close>

lemma forLoop_done: "n \<le> i \<Longrightarrow> forLoop i n body s = Inr s"
  by (subst forLoop.simps) simp

lemma forLoop_step:
  "i < n \<Longrightarrow> body i s = Inr s' \<Longrightarrow> forLoop i n body s = forLoop (i + 1) n body s'"
  by (subst forLoop.simps) simp

lemma forLoop_fail:
  "i < n \<Longrightarrow> body i s = Inl e \<Longrightarrow> forLoop i n body s = Inl e"
  by (subst forLoop.simps) simp

lemma forLoop_steps:
  assumes "\<And>j. i \<le> j \<Longrightarrow> j < n \<Longrightarrow> body j (g j) = Inr (g (j + 1))" "i \<le> n"
  shows "forLoop i n body (g i) = Inr (g n)"
  using assms
proof (induction "n - i" arbitrary: i)
  case 0
  then show ?case by (simp add: forLoop_done)
next
  case (Suc d)
  then have "i < n" by simp
  moreover have "body i (g i) = Inr (g (i + 1))"
    using Suc.prems(1) [of i] \<open>i < n\<close> by simp
  ultimately have "forLoop i n body (g i) = forLoop (i + 1) n body (g (i + 1))"
    by (rule forLoop_step)
  also have "\<dots> = Inr (g n)"
    using Suc.hyps(1) [of "i + 1"] Suc.hyps(2) Suc.prems \<open>i < n\<close> by simp
  finally show ?case .
qed

lemma forLoop_raster:
  assumes "\<And>y x. y < h \<Longrightarrow> x < w \<Longrightarrow> body y x (G (y * w + x)) = Inr (G (y * w + x + 1))"
  shows "forLoop 0 h (\<lambda>y. forLoop 0 w (body y)) (G 0) = Inr (G (h * w))"
proof -
  have row: "forLoop 0 w (body y) (G (y * w)) = Inr (G ((y + 1) * w))" if "y < h" for y
  proof -
    have "forLoop 0 w (body y) (G (y * w + 0)) = Inr (G (y * w + w))"
      by (rule forLoop_steps [where g = "\<lambda>x. G (y * w + x)"]) (simp_all add: assms that)
    then show ?thesis by (simp add: add.commute)
  qed
  have "forLoop 0 h (\<lambda>y. forLoop 0 w (body y)) (G (0 * w)) = Inr (G (h * w))"
    by (rule forLoop_steps [where g = "\<lambda>y. G (y * w)"]) (simp_all add: row)
  then show ?thesis by simp
qed

lemma forLoop_inv:
  assumes "I s" "\<And>j t. i \<le> j \<Longrightarrow> j < n \<Longrightarrow> I t \<Longrightarrow> \<exists>t'. body j t = Inr t' \<and> I t'"
  shows "\<exists>t. forLoop i n body s = Inr t \<and> I t"
  using assms
proof (induction "n - i" arbitrary: i s)
  case 0
  then show ?case by (simp add: forLoop_done)
next
  case (Suc d)
  then have lt: "i < n" by simp
  then obtain s' where s': "body i s = Inr s'" "I s'"
    using Suc.prems(2) [of i s] Suc.prems(1) by auto
  have "\<exists>t. forLoop (i + 1) n body s' = Inr t \<and> I t"
  proof (rule Suc.hyps(1))
    show "d = n - (i + 1)" using Suc.hyps(2) by simp
    show "I s'" by (rule s')
    show "\<exists>t'. body j t = Inr t' \<and> I t'" if "i + 1 \<le> j" "j < n" "I t" for j t
      using Suc.prems(2) [of j t] that by simp
  qed
  then show ?case
    by (simp only: forLoop_step [of i n body s s', OF lt s'(1)])
qed

lemma forLoop_raster_inv:
  assumes "I s" "\<And>y x t. y < h \<Longrightarrow> x < w \<Longrightarrow> I t \<Longrightarrow> \<exists>t'. body y x t = Inr t' \<and> I t'"
  shows "\<exists>t. forLoop 0 h (\<lambda>y. forLoop 0 w (body y)) s = Inr t \<and> I t"
proof (rule forLoop_inv [where I = I, OF assms(1)])
  fix y t
  assume "y < h" "I t"
  then show "\<exists>t'. forLoop 0 w (body y) t = Inr t' \<and> I t'"
    by (intro forLoop_inv [where I = I]) (simp_all add: assms(2))
qed

lemma foldE_append:
  "foldE f (xs @ ys) s = (case foldE f xs s of Inl e \<Rightarrow> Inl e | Inr s' \<Rightarrow> foldE f ys s')"
  by (induction xs arbitrary: s) (simp_all split: sum.split)

lemma forLoop_foldE: "forLoop i n body s = foldE body [i..<n] s"
proof (induction "n - i" arbitrary: i s)
  case 0
  then show ?case by (simp add: forLoop_done)
next
  case (Suc d)
  then have lt: "i < n" by simp
  then have up: "[i..<n] = i # [i + 1..<n]"
    by (simp add: upt_conv_Cons)
  show ?case
  proof (cases "body i s")
    case (Inl e)
    then show ?thesis by (simp add: up forLoop_fail [OF lt])
  next
    case (Inr s')
    have "forLoop (i + 1) n body s' = foldE body [i + 1..<n] s'"
      using Suc.hyps(1) [of "i + 1" s'] Suc.hyps(2) by simp
    then show ?thesis
      by (simp add: up Inr forLoop_step [of i n body s s', OF lt Inr] del: upt_Suc)
  qed
qed

lemma foldE_map: "foldE f (map g xs) s = foldE (\<lambda>a. f (g a)) xs s"
  by (induction xs arbitrary: s) (simp_all split: sum.split)

lemma foldE_concat:
  "foldE f (concat xss) s = foldE (\<lambda>xs. foldE f xs) xss s"
  by (induction xss arbitrary: s) (simp_all add: foldE_append split: sum.split)

lemma forLoop_rasterOrder:
  "forLoop 0 h (\<lambda>y. forLoop 0 w (body y)) s = foldE (\<lambda>(x, y). body y x) (rasterOrder w h) s"
proof -
  have inner: "forLoop 0 w (body y) = foldE (\<lambda>(x, y). body y x) (map (\<lambda>x. (x, y)) [0..<w])" for y
    by (rule ext) (simp add: forLoop_foldE foldE_map)
  show ?thesis
    by (simp add: rasterOrder_def foldE_concat foldE_map forLoop_foldE inner)
qed

section \<open>Ordered dithering, pixel by pixel\<close>

lemma orderedPixel_alt:
  assumes "P \<noteq> []" "M \<noteq> []"
  shows "orderedPixel w s P M y x data =
           Inr (setRGB data (4 * (y * w + x))
                  (nearest (orderedAdjusted M s (getRGB data (4 * (y * w + x))) y x) P))"
proof -
  have idx: "(y * w + x) * 4 = 4 * (y * w + x)" by simp
  show ?thesis
    unfolding orderedPixel_def idx
    using assms(2)
    by (simp add: orderedAdjusted_def getRGB_def setRGB_def Let_def
        findClosest_nearest [OF assms(1)] split: prod.split)
qed

lemma raster_div_mod: "x < w \<Longrightarrow> (y * w + x) div w = (y :: nat)" "x < w \<Longrightarrow> (y * w + x) mod w = x"
  by simp_all

lemma orderedDithering_paint:
  assumes "P \<noteq> []" "M \<noteq> []"
  shows "orderedDithering D w h s P M =
           Inr (paint (\<lambda>k. nearest (orderedAdjusted M s (getRGB D (4 * k)) (k div w) (k mod w)) P)
                  (h * w) D)"
proof -
  let ?f = "\<lambda>k. nearest (orderedAdjusted M s (getRGB D (4 * k)) (k div w) (k mod w)) P"
  have step: "orderedPixel w s P M y x (paint ?f (y * w + x) D) = Inr (paint ?f (y * w + x + 1) D)"
    if "y < h" "x < w" for y x
  proof -
    have "?f (y * w + x) = nearest (orderedAdjusted M s (getRGB D (4 * (y * w + x))) y x) P"
      using that(2) by (simp only: raster_div_mod)
    then have "setRGB (paint ?f (y * w + x) D) (4 * (y * w + x))
                 (nearest (orderedAdjusted M s (getRGB D (4 * (y * w + x))) y x) P)
               = paint ?f (y * w + x + 1) D"
      using paint_step [of ?f "y * w + x" D] by (simp only:)
    then show ?thesis
      by (simp only: orderedPixel_alt [OF assms] getRGB_paint)
  qed
  have "forLoop 0 h (\<lambda>y. forLoop 0 w (orderedPixel w s P M y)) (paint ?f 0 D)
          = Inr (paint ?f (h * w) D)"
    by (rule forLoop_raster [where G = "\<lambda>k. paint ?f k D"]) (rule step)
  then show ?thesis
    by (simp add: orderedDithering_def)
qed

lemma paint_pixel:
  assumes "k < n" "4 * k + 3 < length D"
  shows "paint f n D ! (4 * k) = channel (f k) 0"
    "paint f n D ! (4 * k + 1) = channel (f k) 1"
    "paint f n D ! (4 * k + 2) = channel (f k) 2"
    "paint f n D ! (4 * k + 3) = D ! (4 * k + 3)"
proof -
  have "paint f n D ! (4 * k + c) =
          (if c \<noteq> 3 then channel (f k) c else D ! (4 * k + c))" if "c < 4" for c
    using that assms by (subst paint_nth) (simp_all add: div4 mod4)
  from this [of 0] this [of 1] this [of 2] this [of 3]
  show "paint f n D ! (4 * k) = channel (f k) 0"
    "paint f n D ! (4 * k + 1) = channel (f k) 1"
    "paint f n D ! (4 * k + 2) = channel (f k) 2"
    "paint f n D ! (4 * k + 3) = D ! (4 * k + 3)"
    by simp_all
qed

lemma raster_index: "y < h \<Longrightarrow> x < w \<Longrightarrow> y * w + x < h * (w :: nat)"
proof -
  assume "y < h" "x < w"
  then have "y * w + x < y * w + w" by simp
  also have "\<dots> = (y + 1) * w" by simp
  also have "\<dots> \<le> h * w"
    using \<open>y < h\<close> by (intro mult_le_mono1) simp
  finally show ?thesis .
qed

section \<open>Error diffusion with strength 0\<close>

lemma zeros_update:
  "(replicate L (Num 0))[i := rdF (replicate L (Num 0)) i + Num 0] = replicate L (Num 0)"
  by (cases "i < L") (simp_all add: rdF_def list_eq_iff_nth_eq nth_list_update)

lemma distributeError_zero:
  "distributeError (replicate L (Num 0)) x y (Num 0, Num 0, Num 0) (Num c) w h
     = replicate L (Num 0)"
  by (simp add: distributeError_def Let_def zeros_update)

lemma read_zero:
  "i < length data \<Longrightarrow> rd data i + rdF (replicate (length data) (Num 0)) i = rd data i"
  by (simp add: rd_def rdF_def byteNum_def)

lemma quantError_zero:
  "i < length data \<Longrightarrow> (rd data i - byteNum n) * Num 0 = Num 0"
  by (simp add: rd_def byteNum_def)

lemma fsPixel_zero:
  assumes "P \<noteq> []" "4 * (y * w + x) + 2 < length data"
  shows "fsPixel w h (Num 0) P y x (data, replicate (length data) (Num 0)) =
           Inr (setRGB data (4 * (y * w + x)) (nearest (getRGB data (4 * (y * w + x))) P),
                replicate (length data) (Num 0))"
proof -
  define idx where "idx = 4 * (y * w + x)"
  have i1: "(y * w + x) * 4 = idx" by (simp add: idx_def)
  have r: "idx + 2 < length data" using assms(2) by (simp add: idx_def)
  have "fsPixel w h (Num 0) P y x (data, replicate (length data) (Num 0)) =
           Inr (setRGB data idx (nearest (getRGB data idx) P), replicate (length data) (Num 0))"
    unfolding fsPixel_def i1
    using r
    by (simp add: Let_def read_zero quantError_zero findClosest_nearest [OF assms(1)]
        distributeError_zero getRGB_def setRGB_def split: prod.split)
  then show ?thesis by (simp only: idx_def)
qed

lemma atkinsonPixel_zero:
  assumes "P \<noteq> []" "4 * (y * w + x) + 2 < length data"
  shows "atkinsonPixel w h (Num 0) P y x (data, replicate (length data) (Num 0)) =
           Inr (setRGB data (4 * (y * w + x)) (nearest (getRGB data (4 * (y * w + x))) P),
                replicate (length data) (Num 0))"
proof -
  define idx where "idx = 4 * (y * w + x)"
  have i1: "(y * w + x) * 4 = idx" by (simp add: idx_def)
  have r: "idx + 2 < length data" using assms(2) by (simp add: idx_def)
  have "atkinsonPixel w h (Num 0) P y x (data, replicate (length data) (Num 0)) =
           Inr (setRGB data idx (nearest (getRGB data idx) P), replicate (length data) (Num 0))"
    unfolding atkinsonPixel_def i1
    using r
    by (simp add: Let_def read_zero quantError_zero findClosest_nearest [OF assms(1)]
        distributeError_zero getRGB_def setRGB_def split: prod.split)
  then show ?thesis by (simp only: idx_def)
qed

lemma diffusion_zero_paint:
  assumes "P \<noteq> []" "length D = 4 * w * h"
    and pixel: "\<And>y x data. 4 * (y * w + x) + 2 < length data \<Longrightarrow>
           body y x (data, replicate (length data) (Num 0)) =
           Inr (setRGB data (4 * (y * w + x)) (nearest (getRGB data (4 * (y * w + x))) P),
                replicate (length data) (Num 0))"
  shows "forLoop 0 h (\<lambda>y. forLoop 0 w (body y)) (D, replicate (length D) (Num 0))
           = Inr (paint (\<lambda>k. nearest (getRGB D (4 * k)) P) (length D) D,
                  replicate (length D) (Num 0))"
proof -
  let ?f = "\<lambda>k. nearest (getRGB D (4 * k)) P"
  let ?G = "\<lambda>k. (paint ?f k D, replicate (length D) (Num 0))"
  have step: "body y x (?G (y * w + x)) = Inr (?G (y * w + x + 1))" if yx: "y < h" "x < w" for y x
  proof -
    have "y * w + x < h * w" using yx by (rule raster_index)
    then have "4 * (y * w + x) + 2 < 4 * (h * w)" by simp
    then have "4 * (y * w + x) + 2 < length (paint ?f (y * w + x) D)"
      using assms(2) by (simp add: mult.commute mult.left_commute)
    then have "body y x (paint ?f (y * w + x) D, replicate (length (paint ?f (y * w + x) D)) (Num 0))
        = Inr (setRGB (paint ?f (y * w + x) D) (4 * (y * w + x))
                 (nearest (getRGB (paint ?f (y * w + x) D) (4 * (y * w + x))) P),
               replicate (length (paint ?f (y * w + x) D)) (Num 0))"
      by (rule pixel)
    then show ?thesis
      using paint_step [of ?f "y * w + x" D]
      by (simp only: paint_length getRGB_paint)
  qed
  have "forLoop 0 h (\<lambda>y. forLoop 0 w (body y)) (?G 0) = Inr (?G (h * w))"
    by (rule forLoop_raster [where G = ?G]) (rule step)
  moreover have "paint ?f (h * w) D = paint ?f (length D) D"
    using assms(2) by (intro paint_beyond) (simp add: mult.commute mult.left_commute)
  ultimately show ?thesis by simp
qed

text \<open>
  C7. On a buffer of \<open>width \<times> height\<close> pixels and with a non-empty palette,
  Floyd-Steinberg and Atkinson dithering with strength 0 return the very buffer that flat
  quantization (\<open>applyPalette\<close>) returns.
\<close>

theorem diffusion_strength_zero:
  assumes "P \<noteq> []" "length data = 4 * w * h"
  shows "\<exists>out. applyPalette data P = Inr out
           \<and> floydSteinbergDithering data w h (Num 0) P = Inr out
           \<and> atkinsonDithering data w h (Num 0) P = Inr out"
proof -
  let ?out = "paint (\<lambda>k. nearest (getRGB data (4 * k)) P) (length data) data"
  have "applyPalette data P = Inr ?out"
    by (rule applyPalette_paint [OF assms(1)])
  moreover have "floydSteinbergDithering data w h (Num 0) P = Inr ?out"
    using diffusion_zero_paint [OF assms, of "fsPixel w h (Num 0) P"] fsPixel_zero [OF assms(1)]
    by (simp add: floydSteinbergDithering_def)
  moreover have "atkinsonDithering data w h (Num 0) P = Inr ?out"
    using diffusion_zero_paint [OF assms, of "atkinsonPixel w h (Num 0) P"]
      atkinsonPixel_zero [OF assms(1)]
    by (simp add: atkinsonDithering_def)
  ultimately show ?thesis by blast
qed

theorem diffusion_strength_zero_witness:
  "[(0, 0, 0), (255, 255, 255)] \<noteq> ([] :: rgb list)
   \<and> length [120, 120, 120, 255, 130, 130, 130, 9 :: byte] = 4 * 2 * 1
   \<and> floydSteinbergDithering [120, 120, 120, 255, 130, 130, 130, 9] 2 1 (Num 0)
         [(0, 0, 0), (255, 255, 255)] = Inr [0, 0, 0, 255, 255, 255, 255, 9]
   \<and> atkinsonDithering [120, 120, 120, 255, 130, 130, 130, 9] 2 1 (Num 0)
         [(0, 0, 0), (255, 255, 255)] = Inr [0, 0, 0, 255, 255, 255, 255, 9]"
proof -
  let ?P = "[(0, 0, 0), (255, 255, 255)] :: rgb list"
  let ?B = "[120, 120, 120, 255, 130, 130, 130, 9] :: byte list"
  have ne: "?P \<noteq> []" by simp
  have len: "length ?B = 4 * 2 * 1" by simp
  have flat: "applyPalette ?B ?P = Inr [0, 0, 0, 255, 255, 255, 255, 9]"
    by code_simp
  obtain out where "applyPalette ?B ?P = Inr out"
    "floydSteinbergDithering ?B 2 1 (Num 0) ?P = Inr out"
    "atkinsonDithering ?B 2 1 (Num 0) ?P = Inr out"
    using diffusion_strength_zero [OF ne len] by blast
  with flat ne len show ?thesis by simp
qed

section \<open>What every ditherer leaves alone\<close>

lemma sameAlpha_refl [simp]: "sameAlpha D D"
  by (simp add: sameAlpha_def)

lemma sameAlpha_setRGB:
  assumes "sameAlpha D d"
  shows "sameAlpha D (setRGB d (4 * k) c)"
proof -
  have "setRGB d (4 * k) c ! j = d ! j" if j: "j < length d" "j mod 4 = 3" for j
  proof -
    have "(4 * k) mod 4 = 0" "(4 * k + 1) mod 4 = 1" "(4 * k + 2) mod 4 = 2"
      using mod4 [of 0 k] mod4 [of 1 k] mod4 [of 2 k] by simp_all
    then have "j \<noteq> 4 * k" "j \<noteq> 4 * k + 1" "j \<noteq> 4 * k + 2"
      using j(2) by auto
    then show ?thesis
      using j(1) by (simp only: setRGB_nth if_False)
  qed
  then show ?thesis
    using assms by (simp add: sameAlpha_def)
qed

lemma sameAlpha_paint: "sameAlpha D (paint f n D)"
  by (simp add: sameAlpha_def paint_nth)

lemma sameAlpha_pixel:
  "sameAlpha D d \<Longrightarrow> 4 * k + 3 < length D \<Longrightarrow> d ! (4 * k + 3) = D ! (4 * k + 3)"
  using mod4 [of 3 k] by (simp add: sameAlpha_def)

lemma fsPixel_data:
  assumes "P \<noteq> []"
  shows "\<exists>c e'. fsPixel w h s P y x (d, e) = Inr (setRGB d (4 * (y * w + x)) c, e')"
proof -
  define idx where "idx = 4 * (y * w + x)"
  have i1: "(y * w + x) * 4 = idx" by (simp add: idx_def)
  have "\<exists>c e'. fsPixel w h s P y x (d, e) = Inr (setRGB d idx c, e')"
    unfolding fsPixel_def i1
    by (auto simp add: Let_def findClosest_nearest [OF assms] setRGB_def split: prod.split)
  then show ?thesis by (simp only: idx_def)
qed

lemma atkinsonPixel_data:
  assumes "P \<noteq> []"
  shows "\<exists>c e'. atkinsonPixel w h s P y x (d, e) = Inr (setRGB d (4 * (y * w + x)) c, e')"
proof -
  define idx where "idx = 4 * (y * w + x)"
  have i1: "(y * w + x) * 4 = idx" by (simp add: idx_def)
  have "\<exists>c e'. atkinsonPixel w h s P y x (d, e) = Inr (setRGB d idx c, e')"
    unfolding atkinsonPixel_def i1
    by (auto simp add: Let_def findClosest_nearest [OF assms] setRGB_def split: prod.split)
  then show ?thesis by (simp only: idx_def)
qed

lemma diffusion_sameAlpha:
  fixes body :: "nat \<Rightarrow> nat \<Rightarrow> byte list \<times> 'e \<Rightarrow> error + byte list \<times> 'e"
  assumes "\<And>y x d e. \<exists>c e'. body y x (d, e) = Inr (setRGB d (4 * (y * w + x)) c, e')"
  shows "\<exists>out e'. forLoop 0 h (\<lambda>y. forLoop 0 w (body y)) (D, e) = Inr (out, e')
            \<and> sameAlpha D out"
proof -
  have "\<exists>t. forLoop 0 h (\<lambda>y. forLoop 0 w (body y)) (D, e) = Inr t \<and> sameAlpha D (fst t)"
  proof (rule forLoop_raster_inv [where I = "\<lambda>t. sameAlpha D (fst t)"])
    show "sameAlpha D (fst (D, e))" by simp
  next
    fix y x and t :: "byte list \<times> 'e"
    assume "sameAlpha D (fst t)"
    then have sa: "sameAlpha D (setRGB (fst t) (4 * (y * w + x)) c)" for c
      by (rule sameAlpha_setRGB)
    obtain c e' where "body y x (fst t, snd t) = Inr (setRGB (fst t) (4 * (y * w + x)) c, e')"
      using assms by blast
    with sa [of c] show "\<exists>t'. body y x t = Inr t' \<and> sameAlpha D (fst t')"
      by simp
  qed
  then show ?thesis by auto
qed

lemma floydSteinberg_sameAlpha:
  assumes "P \<noteq> []"
  shows "\<exists>out. floydSteinbergDithering D w h s P = Inr out \<and> sameAlpha D out"
  using diffusion_sameAlpha [of "fsPixel w h s P" w h D "replicate (length D) (Num 0)"]
    fsPixel_data [OF assms]
  by (auto simp: floydSteinbergDithering_def)

lemma atkinson_sameAlpha:
  assumes "P \<noteq> []"
  shows "\<exists>out. atkinsonDithering D w h s P = Inr out \<and> sameAlpha D out"
  using diffusion_sameAlpha [of "atkinsonPixel w h s P" w h D "replicate (length D) (Num 0)"]
    atkinsonPixel_data [OF assms]
  by (auto simp: atkinsonDithering_def)

lemma ordered_sameAlpha:
  assumes "P \<noteq> []" "M \<noteq> []"
  shows "\<exists>out. orderedDithering D w h s P M = Inr out \<and> sameAlpha D out"
  by (simp add: orderedDithering_paint [OF assms] sameAlpha_paint)

lemma applyPalette_sameAlpha:
  assumes "P \<noteq> []"
  shows "\<exists>out. applyPalette D P = Inr out \<and> sameAlpha D out"
  by (simp add: applyPalette_paint [OF assms] sameAlpha_paint)

text \<open>
  C8. With a non-empty palette (and, for ordered dithering, a non-empty matrix), flat
  quantization and the three ditherers each return a buffer of the length of the input
  whose alpha byte, at place \<open>4 * k + 3\<close> for pixel \<open>k\<close>, is the alpha byte of the input,
  for every buffer, width, height and strength.
\<close>

theorem ditherers_keep_alpha:
  assumes "P \<noteq> []" "M \<noteq> []"
  shows "\<exists>o1 o2 o3 o4.
           applyPalette data P = Inr o1
         \<and> floydSteinbergDithering data w h s P = Inr o2
         \<and> atkinsonDithering data w h s P = Inr o3
         \<and> orderedDithering data w h s P M = Inr o4
         \<and> (\<forall>out \<in> {o1, o2, o3, o4}.
               length out = length data
               \<and> (\<forall>k. 4 * k + 3 < length data \<longrightarrow> out ! (4 * k + 3) = data ! (4 * k + 3)))"
proof -
  obtain o1 where o1: "applyPalette data P = Inr o1" "sameAlpha data o1"
    using applyPalette_sameAlpha [OF assms(1)] by blast
  obtain o2 where o2: "floydSteinbergDithering data w h s P = Inr o2" "sameAlpha data o2"
    using floydSteinberg_sameAlpha [OF assms(1)] by blast
  obtain o3 where o3: "atkinsonDithering data w h s P = Inr o3" "sameAlpha data o3"
    using atkinson_sameAlpha [OF assms(1)] by blast
  obtain o4 where o4: "orderedDithering data w h s P M = Inr o4" "sameAlpha data o4"
    using ordered_sameAlpha [OF assms] by blast
  have "length out = length data
          \<and> (\<forall>k. 4 * k + 3 < length data \<longrightarrow> out ! (4 * k + 3) = data ! (4 * k + 3))"
    if "sameAlpha data out" for out
    using that sameAlpha_pixel [OF that] by (simp add: sameAlpha_def)
  with o1 o2 o3 o4 show ?thesis by blast
qed

theorem ditherers_keep_alpha_witness:
  "[(0, 0, 0), (255, 255, 255)] \<noteq> ([] :: rgb list) \<and> [[0, 2], [3, 1]] \<noteq> ([] :: int list list)
   \<and> floydSteinbergDithering [120, 120, 120, 77, 130, 130, 130, 9] 2 1 (Num 1)
         [(0, 0, 0), (255, 255, 255)] = Inr [0, 0, 0, 77, 255, 255, 255, 9]
   \<and> [0, 0, 0, 77, 255, 255, 255, 9] ! (4 * 1 + 3) = (9 :: byte)"
proof -
  let ?P = "[(0, 0, 0), (255, 255, 255)] :: rgb list"
  let ?M = "[[0, 2], [3, 1]] :: int list list"
  let ?B = "[120, 120, 120, 77, 130, 130, 130, 9] :: byte list"
  have ne: "?P \<noteq> []" "?M \<noteq> []" by simp_all
  have run: "floydSteinbergDithering ?B 2 1 (Num 1) ?P = Inr [0, 0, 0, 77, 255, 255, 255, 9]"
    by code_simp
  obtain o2 where o2: "floydSteinbergDithering ?B 2 1 (Num 1) ?P = Inr o2"
    and keep: "\<forall>k. 4 * k + 3 < length ?B \<longrightarrow> o2 ! (4 * k + 3) = ?B ! (4 * k + 3)"
    using ditherers_keep_alpha [OF ne, of ?B 2 1 "Num 1"] by auto
  have "o2 ! (4 * 1 + 3) = ?B ! (4 * 1 + 3)"
    using keep by (rule allE [where x = 1]) simp
  with o2 run ne show ?thesis by simp
qed

section \<open>Buffers whose length disagrees with the dimensions\<close>

lemma mismatch_length:
  "length [200, 100, 50, 255, 200, 100, 50, 255, 1, 2 :: byte] \<noteq> 2 * 2 * 4"
  by simp

lemma mismatch_floydSteinberg:
  "floydSteinbergDithering [200, 100, 50, 255, 200, 100, 50, 255, 1, 2] 2 2 (Num 1)
     [(0, 0, 0), (255, 255, 255)] = Inr [0, 0, 0, 255, 255, 255, 255, 255, 0, 0]"
  by code_simp

lemma mismatch_atkinson:
  "atkinsonDithering [200, 100, 50, 255, 200, 100, 50, 255, 1, 2] 2 2 (Num 1)
     [(0, 0, 0), (255, 255, 255)] = Inr [0, 0, 0, 255, 255, 255, 255, 255, 0, 0]"
  by code_simp

lemma mismatch_ordered:
  "orderedDithering [200, 100, 50, 255, 200, 100, 50, 255, 1, 2] 2 2 (Num 1)
     [(0, 0, 0), (255, 255, 255)] [[0, 2], [3, 1]]
     = Inr [0, 0, 0, 255, 255, 255, 255, 255, 0, 0]"
  by code_simp

lemma mismatch_applyPalette:
  "applyPalette [200, 100, 50, 255, 200, 100, 50, 255, 1, 2]
     [(0, 0, 0), (255, 255, 255)] = Inr [0, 0, 0, 255, 0, 0, 0, 255, 0, 0]"
  by code_simp

text \<open>
  C5. No ditherer compares the length of the buffer with \<open>width \<times> height \<times> 4\<close>. On
  the buffer of length 10 declared as 2 by 2 none of them fails: reads past the end
  give \<open>NaN\<close>, writes past the end are dropped, and the buffer comes back.
\<close>

theorem dimension_mismatch_counterexample:
  "length [200, 100, 50, 255, 200, 100, 50, 255, 1, 2 :: byte] \<noteq> 2 * 2 * 4
   \<and> floydSteinbergDithering [200, 100, 50, 255, 200, 100, 50, 255, 1, 2] 2 2 (Num 1)
         [(0, 0, 0), (255, 255, 255)] = Inr [0, 0, 0, 255, 255, 255, 255, 255, 0, 0]
   \<and> atkinsonDithering [200, 100, 50, 255, 200, 100, 50, 255, 1, 2] 2 2 (Num 1)
         [(0, 0, 0), (255, 255, 255)] = Inr [0, 0, 0, 255, 255, 255, 255, 255, 0, 0]
   \<and> orderedDithering [200, 100, 50, 255, 200, 100, 50, 255, 1, 2] 2 2 (Num 1)
         [(0, 0, 0), (255, 255, 255)] [[0, 2], [3, 1]]
         = Inr [0, 0, 0, 255, 255, 255, 255, 255, 0, 0]
   \<and> applyPalette [200, 100, 50, 255, 200, 100, 50, 255, 1, 2]
         [(0, 0, 0), (255, 255, 255)] = Inr [0, 0, 0, 255, 0, 0, 0, 255, 0, 0]"
  using mismatch_length mismatch_floydSteinberg mismatch_atkinson mismatch_ordered
    mismatch_applyPalette
  by (intro conjI)

text \<open>
  C5, as the code has it. For every buffer, width, height and strength, whatever the
  length of the buffer is, each ditherer with a non-empty palette (and matrix) returns a
  buffer of the length of its input: a mismatch of the dimensions is never an error.
\<close>

theorem ditherers_ignore_dimensions:
  assumes "P \<noteq> []" "M \<noteq> []"
  shows "(\<exists>out. applyPalette data P = Inr out \<and> length out = length data)
       \<and> (\<exists>out. floydSteinbergDithering data w h s P = Inr out \<and> length out = length data)
       \<and> (\<exists>out. atkinsonDithering data w h s P = Inr out \<and> length out = length data)
       \<and> (\<exists>out. orderedDithering data w h s P M = Inr out \<and> length out = length data)"
  using applyPalette_sameAlpha [OF assms(1), of data]
    floydSteinberg_sameAlpha [OF assms(1), of data w h s]
    atkinson_sameAlpha [OF assms(1), of data w h s]
    ordered_sameAlpha [OF assms, of data w h s]
  by (simp add: sameAlpha_def) blast

theorem ditherers_ignore_dimensions_witness:
  "[(0, 0, 0), (255, 255, 255)] \<noteq> ([] :: rgb list) \<and> [[0, 2], [3, 1]] \<noteq> ([] :: int list list)
   \<and> length [200, 100, 50, 255, 200, 100, 50, 255, 1, 2 :: byte] \<noteq> 2 * 2 * 4
   \<and> (\<exists>out. floydSteinbergDithering [200, 100, 50, 255, 200, 100, 50, 255, 1, 2] 2 2 (Num 1)
               [(0, 0, 0), (255, 255, 255)] = Inr out \<and> length out = 10)"
proof -
  let ?P = "[(0, 0, 0), (255, 255, 255)] :: rgb list"
  let ?M = "[[0, 2], [3, 1]] :: int list list"
  let ?B = "[200, 100, 50, 255, 200, 100, 50, 255, 1, 2] :: byte list"
  have ne: "?P \<noteq> []" "?M \<noteq> []" by simp_all
  have l: "length ?B = 10" by simp
  have "\<exists>out. floydSteinbergDithering ?B 2 2 (Num 1) ?P = Inr out \<and> length out = length ?B"
    using ditherers_ignore_dimensions [OF ne, of ?B 2 2 "Num 1"] by blast
  then have "\<exists>out. floydSteinbergDithering ?B 2 2 (Num 1) ?P = Inr out \<and> length out = 10"
    unfolding l .
  then show ?thesis by simp
qed

section \<open>The empty palette\<close>

lemma fsPixel_empty: "fsPixel w h s [] y x st = Inl TypeError"
  by (simp add: fsPixel_def Let_def split: prod.split)

lemma atkinsonPixel_empty: "atkinsonPixel w h s [] y x st = Inl TypeError"
  by (simp add: atkinsonPixel_def Let_def split: prod.split)

lemma orderedPixel_empty: "orderedPixel w s [] M y x data = Inl TypeError"
  by (simp add: orderedPixel_def Let_def)

lemma forLoop_raster_fail:
  assumes "0 < h" "0 < w" "\<And>t. body 0 0 t = Inl e"
  shows "forLoop 0 h (\<lambda>y. forLoop 0 w (body y)) st = Inl e"
proof -
  have "forLoop 0 w (body 0) st = Inl e"
    using assms(2) assms(3) [of st] by (rule forLoop_fail)
  with assms(1) show ?thesis
    by (rule forLoop_fail)
qed

lemma forLoop_raster_none:
  assumes "w = 0 \<or> h = 0"
  shows "forLoop 0 h (\<lambda>y. forLoop 0 w (body y)) st = Inr st"
proof (cases "h = 0")
  case True
  then show ?thesis by (simp add: forLoop_done)
next
  case False
  with assms have w: "w = 0" by simp
  show ?thesis
    by (rule forLoop_steps [where g = "\<lambda>y. st"]) (simp_all add: w forLoop_done)
qed

text \<open>
  C4. A ditherer that has no pixel to process never looks at the palette: with an empty
  palette and an empty image nothing fails.
\<close>

theorem empty_palette_counterexample:
  "applyPalette [] [] = Inr []
   \<and> floydSteinbergDithering [] 0 0 (Num 1) [] = Inr []
   \<and> atkinsonDithering [] 0 0 (Num 1) [] = Inr []
   \<and> orderedDithering [] 0 0 (Num 1) [] [[0, 2], [3, 1]] = Inr []"
  by code_simp

text \<open>
  C4, as the code has it. \<open>findClosestPaletteColor\<close> on an empty palette fails for every
  colour, with the \<open>TypeError\<close> of reading \<open>palette[0][0]\<close>; a ditherer with an empty
  palette fails with that error when it has a first pixel to process (a non-empty buffer
  for \<open>applyPalette\<close>, a positive width and height for the others), and returns the
  buffer as it is when it has none.
\<close>

theorem empty_palette_TypeError:
  "findClosestPaletteColor c [] = Inl TypeError
   \<and> (data \<noteq> [] \<longrightarrow> applyPalette data [] = Inl TypeError)
   \<and> (0 < w \<and> 0 < h \<longrightarrow>
         floydSteinbergDithering data w h s [] = Inl TypeError
         \<and> atkinsonDithering data w h s [] = Inl TypeError
         \<and> orderedDithering data w h s [] M = Inl TypeError)
   \<and> (data = [] \<longrightarrow> applyPalette data [] = Inr data)
   \<and> (w = 0 \<or> h = 0 \<longrightarrow>
         floydSteinbergDithering data w h s [] = Inr data
         \<and> atkinsonDithering data w h s [] = Inr data
         \<and> orderedDithering data w h s [] M = Inr data)"
proof -
  have "applyPalette data [] = Inl TypeError" if "data \<noteq> []"
    using that unfolding applyPalette_def by (subst applyPaletteLoop_unfold) simp
  moreover have "applyPalette data [] = Inr data" if "data = []"
    using that unfolding applyPalette_def by (subst applyPaletteLoop_unfold) simp
  moreover have "floydSteinbergDithering data w h s [] = Inl TypeError
         \<and> atkinsonDithering data w h s [] = Inl TypeError
         \<and> orderedDithering data w h s [] M = Inl TypeError" if "0 < w \<and> 0 < h"
    using that
    by (simp add: floydSteinbergDithering_def atkinsonDithering_def orderedDithering_def
        forLoop_raster_fail fsPixel_empty atkinsonPixel_empty orderedPixel_empty)
  moreover have "floydSteinbergDithering data w h s [] = Inr data
         \<and> atkinsonDithering data w h s [] = Inr data
         \<and> orderedDithering data w h s [] M = Inr data" if "w = 0 \<or> h = 0"
    using that
    by (simp add: floydSteinbergDithering_def atkinsonDithering_def orderedDithering_def
        forLoop_raster_none)
  ultimately show ?thesis by simp
qed

theorem empty_palette_TypeError_witness:
  "[1, 2, 3, 4] \<noteq> ([] :: byte list) \<and> (0 :: nat) < 1
   \<and> findClosestPaletteColor (Num 1, Num 2, Num 3) [] = Inl TypeError
   \<and> applyPalette [1, 2, 3, 4] [] = Inl TypeError
   \<and> floydSteinbergDithering [1, 2, 3, 4] 1 1 (Num 1) [] = Inl TypeError
   \<and> atkinsonDithering [1, 2, 3, 4] 1 1 (Num 1) [] = Inl TypeError
   \<and> orderedDithering [1, 2, 3, 4] 1 1 (Num 1) [] [[0, 2], [3, 1]] = Inl TypeError
   \<and> floydSteinbergDithering [1, 2, 3, 4] 0 1 (Num 1) [] = Inr [1, 2, 3, 4]"
  using empty_palette_TypeError [of "(Num 1, Num 2, Num 3)" "[1, 2, 3, 4]" 1 1 "Num 1"
      "[[0, 2], [3, 1]]"]
    empty_palette_TypeError [of "(Num 1, Num 2, Num 3)" "[1, 2, 3, 4]" 0 1 "Num 1"
      "[[0, 2], [3, 1]]"]
  by simp

section \<open>The dispatch on the name of the algorithm\<close>

text \<open>
  C6. Without a palette the name of the algorithm is never looked at: \<open>pixelate\<close> at
  width 2, on an image of 2 by 1 pixels, with the unknown name \<open>bogus\<close> and no palette
  returns the pixels and raises nothing.
\<close>

theorem unknown_dither_counterexample:
  "asciiToLowerCase (js ''bogus'') \<notin> set (map js recognizedDithers)
   \<and> pixelate asciiToLowerCase 2 (js ''bogus'') (Num 50) None [1, 2, 3, 4, 5, 6, 7, 8] 1
       = Inr [1, 2, 3, 4, 5, 6, 7, 8]"
  by (simp add: pixelate_def pixelateDither_def recognizedDithers_def asciiToLowerCase_def
      js_def MIN_PIXEL_WIDTH_def MAX_PIXEL_WIDTH_def)

text \<open>
  C6, as the code has it. For a width that \<open>pixelate\<close> admits, from 2 to 4096, and for
  every image and strength: when a palette is supplied (even an empty one), a name whose
  lower-case form, as \<open>toLowerCase\<close> gives it, is none of the recognized names makes
  \<open>pixelate\<close> fail with the error \<open>Unknown dithering method: \<close> followed by the name; when
  no palette is supplied, the name is not looked at, nothing is raised and the pixels
  come back as they are.
\<close>

theorem unknown_dither_with_palette:
  assumes "2 \<le> width" "width \<le> 4096"
  shows "(toLowerCase dither \<notin> set (map js recognizedDithers) \<longrightarrow>
            pixelate toLowerCase width dither strength (Some colors) data pixelsHigh
              = Inl (Error (js ''Unknown dithering method: '' @ dither)))
       \<and> pixelate toLowerCase width dither strength None data pixelsHigh = Inr data"
  using assms
  by (simp add: pixelate_def pixelateDither_def recognizedDithers_def MIN_PIXEL_WIDTH_def
      MAX_PIXEL_WIDTH_def)

theorem unknown_dither_with_palette_witness:
  "(2 :: nat) \<le> 2 \<and> (2 :: nat) \<le> 4096
   \<and> asciiToLowerCase (js ''Bogus'') \<notin> set (map js recognizedDithers)
   \<and> pixelate asciiToLowerCase 2 (js ''Bogus'') (Num 50) (Some [(0, 0, 0)])
         [1, 2, 3, 4, 5, 6, 7, 8] 1
       = Inl (Error (js ''Unknown dithering method: '' @ js ''Bogus''))
   \<and> pixelate asciiToLowerCase 2 (js ''Bogus'') (Num 50) None [1, 2, 3, 4, 5, 6, 7, 8] 1
       = Inr [1, 2, 3, 4, 5, 6, 7, 8]"
proof -
  have w: "(2 :: nat) \<le> 2" "(2 :: nat) \<le> 4096" by simp_all
  have out: "asciiToLowerCase (js ''Bogus'') \<notin> set (map js recognizedDithers)"
    by (simp add: recognizedDithers_def asciiToLowerCase_def js_def)
  show ?thesis
    using w out
      unknown_dither_with_palette [OF w, of asciiToLowerCase "js ''Bogus''" "Num 50"
        "[(0, 0, 0)]" "[1, 2, 3, 4, 5, 6, 7, 8]" 1]
    by blast
qed

text \<open>
  C10. Without a palette the quantize and dither stage of \<open>pixelate\<close> returns the pixels
  it was given, whatever the name of the algorithm (recognized or not) and the strength
  are: two runs that differ only in these give the same output, and no error is raised.
\<close>

theorem no_palette_passthrough:
  "pixelateDither toLowerCase None dither strength data w h = Inr data
   \<and> pixelateDither toLowerCase None dither1 strength1 data w h
       = pixelateDither toLowerCase None dither2 strength2 data w h"
  by (simp add: pixelateDither_def)

section \<open>The nearest palette colour in rounded arithmetic\<close>

lemma colorDistanceFl_Num:
  "colorDistanceFl rnd (Num r, Num g, Num b) p = Num (sqDistFl rnd (r, g, b) p)"
  by (cases p) (simp add: sqDistFl_def byteNum_def)

lemma closestLoopFl_scan:
  assumes "k < i" "i \<le> length P" "cc = P ! k" "cd = Num (sqDistFl rnd c (P ! k))"
    "\<forall>j<i. sqDistFl rnd c (P ! k) \<le> sqDistFl rnd c (P ! j)"
    "\<forall>j<k. sqDistFl rnd c (P ! k) < sqDistFl rnd c (P ! j)"
    "c = (r, g, b)"
  shows "\<exists>m<length P. closestLoopFl rnd (Num r, Num g, Num b) P i cc cd = P ! m
           \<and> (\<forall>j<length P. sqDistFl rnd c (P ! m) \<le> sqDistFl rnd c (P ! j))
           \<and> (\<forall>j<m. sqDistFl rnd c (P ! m) < sqDistFl rnd c (P ! j))"
  using assms
proof (induction "length P - i" arbitrary: i k cc cd)
  case 0
  then have "i = length P" by simp
  with 0 show ?case
    by (subst closestLoopFl.simps) auto
next
  case (Suc n)
  then have lt_i: "i < length P" by simp
  show ?case
  proof (cases "sqDistFl rnd c (P ! i) < sqDistFl rnd c (P ! k)")
    case True
    have step: "closestLoopFl rnd (Num r, Num g, Num b) P i cc cd
        = closestLoopFl rnd (Num r, Num g, Num b) P (i + 1) (P ! i) (Num (sqDistFl rnd c (P ! i)))"
      using lt_i True Suc.prems
      by (subst closestLoopFl.simps) (simp add: colorDistanceFl_Num)
    have "\<forall>j<i + 1. sqDistFl rnd c (P ! i) \<le> sqDistFl rnd c (P ! j)"
    proof (intro allI impI)
      fix j assume "j < i + 1"
      then consider "j < i" | "j = i" by linarith
      then show "sqDistFl rnd c (P ! i) \<le> sqDistFl rnd c (P ! j)"
        using True Suc.prems(5) by cases force+
    qed
    moreover have "\<forall>j<i. sqDistFl rnd c (P ! i) < sqDistFl rnd c (P ! j)"
      using True Suc.prems(5) by force
    ultimately show ?thesis
      unfolding step
      using Suc.hyps(1) [of "i + 1" i "P ! i" "Num (sqDistFl rnd c (P ! i))"] Suc.hyps(2) lt_i
        Suc.prems(7)
      by simp
  next
    case False
    have step: "closestLoopFl rnd (Num r, Num g, Num b) P i cc cd
        = closestLoopFl rnd (Num r, Num g, Num b) P (i + 1) cc cd"
      using lt_i False Suc.prems
      by (subst closestLoopFl.simps) (simp add: colorDistanceFl_Num)
    have "\<forall>j<i + 1. sqDistFl rnd c (P ! k) \<le> sqDistFl rnd c (P ! j)"
    proof (intro allI impI)
      fix j assume "j < i + 1"
      then consider "j < i" | "j = i" by linarith
      then show "sqDistFl rnd c (P ! k) \<le> sqDistFl rnd c (P ! j)"
        using False Suc.prems(5) by cases force+
    qed
    then show ?thesis
      unfolding step
      using Suc.hyps(1) [of "i + 1" k cc cd] Suc.hyps(2) lt_i Suc.prems
      by simp
  qed
qed

lemma findClosestFl_least:
  assumes "P \<noteq> []"
  shows "\<exists>k<length P. findClosestPaletteColorFl rnd (Num r, Num g, Num b) P = Inr (P ! k)
           \<and> (\<forall>j<length P. sqDistFl rnd (r, g, b) (P ! k) \<le> sqDistFl rnd (r, g, b) (P ! j))
           \<and> (\<forall>j<k. sqDistFl rnd (r, g, b) (P ! k) < sqDistFl rnd (r, g, b) (P ! j))"
proof -
  obtain p0 rest where P: "P = p0 # rest"
    using assms by (cases P) auto
  have "\<exists>m<length P. closestLoopFl rnd (Num r, Num g, Num b) P 1 (P ! 0)
            (Num (sqDistFl rnd (r, g, b) (P ! 0))) = P ! m
           \<and> (\<forall>j<length P. sqDistFl rnd (r, g, b) (P ! m) \<le> sqDistFl rnd (r, g, b) (P ! j))
           \<and> (\<forall>j<m. sqDistFl rnd (r, g, b) (P ! m) < sqDistFl rnd (r, g, b) (P ! j))"
    by (rule closestLoopFl_scan [where k = 0]) (simp_all add: P)
  then show ?thesis
    by (simp add: P colorDistanceFl_Num)
qed

lemma findClosestFl_nearest:
  "P \<noteq> [] \<Longrightarrow> findClosestPaletteColorFl rnd c P = Inr (nearestFl rnd c P)"
  by (cases P) (simp_all add: nearestFl_def)

section \<open>Ordered dithering in rounded arithmetic\<close>

lemma orderedPixelFl_alt:
  assumes "P \<noteq> []" "M \<noteq> []"
  shows "orderedPixelFl rnd w s P M y x data =
           Inr (setRGB data (4 * (y * w + x))
                  (nearestFl rnd (orderedAdjustedFl rnd M s (getRGB data (4 * (y * w + x))) y x) P))"
proof -
  have idx: "(y * w + x) * 4 = 4 * (y * w + x)" by simp
  show ?thesis
    unfolding orderedPixelFl_def idx
    using assms(2)
    by (simp add: orderedAdjustedFl_def getRGB_def setRGB_def Let_def
        findClosestFl_nearest [OF assms(1)] split: prod.split)
qed

lemma orderedDitheringFl_paint:
  assumes "P \<noteq> []" "M \<noteq> []"
  shows "orderedDitheringFl rnd D w h s P M =
           Inr (paint (\<lambda>k. nearestFl rnd
                              (orderedAdjustedFl rnd M s (getRGB D (4 * k)) (k div w) (k mod w)) P)
                  (h * w) D)"
proof -
  let ?f = "\<lambda>k. nearestFl rnd (orderedAdjustedFl rnd M s (getRGB D (4 * k)) (k div w) (k mod w)) P"
  have step: "orderedPixelFl rnd w s P M y x (paint ?f (y * w + x) D)
                = Inr (paint ?f (y * w + x + 1) D)"
    if "y < h" "x < w" for y x
  proof -
    have "?f (y * w + x)
            = nearestFl rnd (orderedAdjustedFl rnd M s (getRGB D (4 * (y * w + x))) y x) P"
      using that(2) by (simp only: raster_div_mod)
    then have "setRGB (paint ?f (y * w + x) D) (4 * (y * w + x))
                 (nearestFl rnd (orderedAdjustedFl rnd M s (getRGB D (4 * (y * w + x))) y x) P)
               = paint ?f (y * w + x + 1) D"
      using paint_step [of ?f "y * w + x" D] by (simp only:)
    then show ?thesis
      by (simp only: orderedPixelFl_alt [OF assms] getRGB_paint)
  qed
  have "forLoop 0 h (\<lambda>y. forLoop 0 w (orderedPixelFl rnd w s P M y)) (paint ?f 0 D)
          = Inr (paint ?f (h * w) D)"
    by (rule forLoop_raster [where G = "\<lambda>k. paint ?f k D"]) (rule step)
  then show ?thesis
    by (simp add: orderedDitheringFl_def)
qed

lemma orderedAdjustedFl_2x2:
  "orderedAdjustedFl rnd [[0, 2], [3, 1]] (Num s) (Num a, Num b, Num c) y x =
     (Num (perturbFl rnd (bayerThresholdFl rnd [[0, 2], [3, 1]] x y) s a),
      Num (perturbFl rnd (bayerThresholdFl rnd [[0, 2], [3, 1]] x y) s b),
      Num (perturbFl rnd (bayerThresholdFl rnd [[0, 2], [3, 1]] x y) s c))"
proof -
  define i where "i = y mod 2"
  define j where "j = x mod 2"
  have ij: "i = 0 \<or> i = 1" "j = 0 \<or> j = 1"
    by (auto simp: i_def j_def)
  have len: "length [[0, 2], [3, 1 :: int]] = 2" by simp
  show ?thesis
    unfolding orderedAdjustedFl_def bayerThresholdFl_def perturbFl_def Let_def len
      i_def [symmetric] j_def [symmetric]
    using ij by auto
qed

text \<open>
  C3. Ordered dithering with the 2x2 Bayer matrix \<open>[[0, 2], [3, 1]]\<close>, in the arithmetic
  of the source (every operation rounded by \<open>rnd\<close>): on a buffer of \<open>width \<times> height\<close>
  pixels, with a non-empty palette and a strength between 0 and 1, the output colour of
  the pixel at \<open>(x, y)\<close> is the nearest palette colour (the earliest one of least
  distance) of its own input colour with \<open>(threshold - 127.5) * strength\<close> added to each
  channel, where \<open>threshold = (M[y mod 2][x mod 2] + 0.5) / 4 * 255\<close>; nothing else of
  the buffer enters the result of a pixel, and its alpha byte is kept.
\<close>

theorem orderedDithering_bayer2x2:
  assumes "P \<noteq> []" "length data = 4 * w * h" "0 \<le> s" "s \<le> 1"
  shows "getBayerMatrix (js ''2x2'') = Inr [[0, 2], [3, 1]]
     \<and> (\<exists>out. orderedDitheringFl rnd data w h (Num s) P [[0, 2], [3, 1]] = Inr out
          \<and> length out = length data
          \<and> (\<forall>y<h. \<forall>x<w. \<exists>k<length P.
                (let i = 4 * (y * w + x);
                     t = bayerThresholdFl rnd [[0, 2], [3, 1]] x y;
                     adjusted = (perturbFl rnd t s (byteVal (data ! i)),
                                 perturbFl rnd t s (byteVal (data ! (i + 1))),
                                 perturbFl rnd t s (byteVal (data ! (i + 2))))
                 in P ! k = (out ! i, out ! (i + 1), out ! (i + 2))
                  \<and> (\<forall>j<length P. sqDistFl rnd adjusted (P ! k) \<le> sqDistFl rnd adjusted (P ! j))
                  \<and> (\<forall>j<k. sqDistFl rnd adjusted (P ! k) < sqDistFl rnd adjusted (P ! j))
                  \<and> out ! (i + 3) = data ! (i + 3))))"
proof -
  let ?M = "[[0, 2], [3, 1]] :: int list list"
  let ?f = "\<lambda>k. nearestFl rnd
                   (orderedAdjustedFl rnd ?M (Num s) (getRGB data (4 * k)) (k div w) (k mod w)) P"
  let ?out = "paint ?f (h * w) data"
  have run: "orderedDitheringFl rnd data w h (Num s) P ?M = Inr ?out"
    by (rule orderedDitheringFl_paint [OF assms(1)]) simp
  have pix: "\<exists>k<length P.
                (let i = 4 * (y * w + x);
                     t = bayerThresholdFl rnd ?M x y;
                     adjusted = (perturbFl rnd t s (byteVal (data ! i)),
                                 perturbFl rnd t s (byteVal (data ! (i + 1))),
                                 perturbFl rnd t s (byteVal (data ! (i + 2))))
                 in P ! k = (?out ! i, ?out ! (i + 1), ?out ! (i + 2))
                  \<and> (\<forall>j<length P. sqDistFl rnd adjusted (P ! k) \<le> sqDistFl rnd adjusted (P ! j))
                  \<and> (\<forall>j<k. sqDistFl rnd adjusted (P ! k) < sqDistFl rnd adjusted (P ! j))
                  \<and> ?out ! (i + 3) = data ! (i + 3))"
    if yx: "y < h" "x < w" for y x
  proof -
    let ?k = "y * w + x"
    define i where "i = 4 * ?k"
    define t where "t = bayerThresholdFl rnd ?M x y"
    define adj where "adj = (perturbFl rnd t s (byteVal (data ! i)),
                             perturbFl rnd t s (byteVal (data ! (i + 1))),
                             perturbFl rnd t s (byteVal (data ! (i + 2))))"
    have k: "?k < h * w" using yx by (rule raster_index)
    then have "4 * ?k + 3 < 4 * (h * w)" by simp
    then have inr: "4 * ?k + 3 < length data"
      using assms(2) by (simp add: mult.commute mult.left_commute)
    have rgb: "getRGB data (4 * ?k) =
        (Num (byteVal (data ! (4 * ?k))), Num (byteVal (data ! (4 * ?k + 1))),
         Num (byteVal (data ! (4 * ?k + 2))))"
      using inr by (subst getRGB_full) (simp_all add: byteNum_def)
    have "?f ?k = nearestFl rnd (orderedAdjustedFl rnd ?M (Num s) (getRGB data (4 * ?k)) y x) P"
      using yx(2) by (simp only: raster_div_mod)
    then have fk: "findClosestPaletteColorFl rnd
                  (Num (perturbFl rnd t s (byteVal (data ! i))),
                   Num (perturbFl rnd t s (byteVal (data ! (i + 1)))),
                   Num (perturbFl rnd t s (byteVal (data ! (i + 2))))) P
                = Inr (?f ?k)"
      unfolding i_def t_def
      by (simp only: rgb orderedAdjustedFl_2x2 findClosestFl_nearest [OF assms(1)])
    obtain m where m: "m < length P"
      and cl: "findClosestPaletteColorFl rnd
                  (Num (perturbFl rnd t s (byteVal (data ! i))),
                   Num (perturbFl rnd t s (byteVal (data ! (i + 1)))),
                   Num (perturbFl rnd t s (byteVal (data ! (i + 2))))) P = Inr (P ! m)"
      and least: "\<forall>j<length P. sqDistFl rnd adj (P ! m) \<le> sqDistFl rnd adj (P ! j)"
      and first: "\<forall>j<m. sqDistFl rnd adj (P ! m) < sqDistFl rnd adj (P ! j)"
      unfolding adj_def using findClosestFl_least [OF assms(1)] by blast
    have fm: "?f ?k = P ! m"
      using fk cl by simp
    have "P ! m = (?out ! i, ?out ! (i + 1), ?out ! (i + 2))" "?out ! (i + 3) = data ! (i + 3)"
      unfolding i_def by (simp_all only: paint_pixel [OF k inr] channel_triple fm)
    with m least first show ?thesis
      unfolding Let_def adj_def t_def i_def by blast
  qed
  have "getBayerMatrix (js ''2x2'') = Inr ?M"
    by (simp add: getBayerMatrix.simps js_def)
  moreover have "length ?out = length data" by simp
  ultimately show ?thesis
    using run pix by blast
qed

text \<open>An instance where every intermediate value is a multiple of \<open>1 / 64\<close> below
  \<open>2\<^sup>1\<^sup>7\<close>, so that no operation of the source rounds and \<open>rnd\<close> is the identity: the
  second pixel, grey 130, is moved to 161.875 by the threshold 159.375 and becomes
  white, the second colour of the palette.\<close>

theorem orderedDithering_bayer2x2_witness:
  "[(0, 0, 0), (255, 255, 255)] \<noteq> ([] :: rgb list)
   \<and> length [120, 120, 120, 255, 130, 130, 130, 9 :: byte] = 4 * 2 * 1
   \<and> (0 :: real) \<le> 1 \<and> (1 :: real) \<le> 1
   \<and> orderedDitheringFl (\<lambda>v. v) [120, 120, 120, 255, 130, 130, 130, 9] 2 1 (Num 1)
         [(0, 0, 0), (255, 255, 255)] [[0, 2], [3, 1]] = Inr [0, 0, 0, 255, 255, 255, 255, 9]
   \<and> bayerThresholdFl (\<lambda>v. v) [[0, 2], [3, 1]] 1 0 = 159.375
   \<and> perturbFl (\<lambda>v. v) 159.375 1 (byteVal 130) = 161.875
   \<and> (\<exists>k<2. ([(0, 0, 0), (255, 255, 255)] :: rgb list) ! k = (255, 255, 255)
         \<and> (\<forall>j<2. sqDistFl (\<lambda>v. v) (161.875, 161.875, 161.875)
                      ([(0, 0, 0), (255, 255, 255)] ! k)
                  \<le> sqDistFl (\<lambda>v. v) (161.875, 161.875, 161.875)
                      ([(0, 0, 0), (255, 255, 255)] ! j)))"
proof -
  let ?P = "[(0, 0, 0), (255, 255, 255)] :: rgb list"
  let ?B = "[120, 120, 120, 255, 130, 130, 130, 9] :: byte list"
  let ?M = "[[0, 2], [3, 1]] :: int list list"
  let ?id = "\<lambda>v :: real. v"
  have ne: "?P \<noteq> []" by simp
  have len: "length ?B = 4 * 2 * 1" by simp
  have s: "(0 :: real) \<le> 1" "(1 :: real) \<le> 1" by simp_all
  have run: "orderedDitheringFl ?id ?B 2 1 (Num 1) ?P ?M = Inr [0, 0, 0, 255, 255, 255, 255, 9]"
    by code_simp
  have thr: "bayerThresholdFl ?id ?M 1 0 = 159.375"
    by (simp add: bayerThresholdFl_def)
  have per: "perturbFl ?id 159.375 1 (byteVal 130) = 161.875"
    by (simp add: perturbFl_def byteVal_def)
  obtain out where out: "orderedDitheringFl ?id ?B 2 1 (Num 1) ?P ?M = Inr out"
    and pix: "\<forall>y<1. \<forall>x<2. \<exists>k<length ?P.
                (let i = 4 * (y * 2 + x);
                     t = bayerThresholdFl ?id ?M x y;
                     adjusted = (perturbFl ?id t 1 (byteVal (?B ! i)),
                                 perturbFl ?id t 1 (byteVal (?B ! (i + 1))),
                                 perturbFl ?id t 1 (byteVal (?B ! (i + 2))))
                 in ?P ! k = (out ! i, out ! (i + 1), out ! (i + 2))
                  \<and> (\<forall>j<length ?P. sqDistFl ?id adjusted (?P ! k) \<le> sqDistFl ?id adjusted (?P ! j))
                  \<and> (\<forall>j<k. sqDistFl ?id adjusted (?P ! k) < sqDistFl ?id adjusted (?P ! j))
                  \<and> out ! (i + 3) = ?B ! (i + 3))"
    using orderedDithering_bayer2x2 [OF ne len s, of ?id] by blast
  have o: "out = [0, 0, 0, 255, 255, 255, 255, 9]"
    using out run by simp
  have i: "4 * (0 * 2 + 1) = (4 :: nat)" by simp
  have nth: "?B ! 4 = 130" "?B ! (4 + 1) = 130" "?B ! (4 + 2) = 130"
    "[0, 0, 0, 255, 255, 255, 255, 9 :: byte] ! 4 = 255"
    "[0, 0, 0, 255, 255, 255, 255, 9 :: byte] ! (4 + 1) = 255"
    "[0, 0, 0, 255, 255, 255, 255, 9 :: byte] ! (4 + 2) = 255"
    by simp_all
  have l2: "length ?P = 2" by simp
  have nth2: "?B ! (4 + 3) = 9" "[0, 0, 0, 255, 255, 255, 255, 9 :: byte] ! (4 + 3) = 9"
    by simp_all
  have y: "(0 :: nat) < 1" and x: "(1 :: nat) < 2" by simp_all
  have "\<exists>k<2. ?P ! k = (255, 255, 255)
         \<and> (\<forall>j<2. sqDistFl ?id (161.875, 161.875, 161.875) (?P ! k)
                  \<le> sqDistFl ?id (161.875, 161.875, 161.875) (?P ! j))
         \<and> (\<forall>j<k. sqDistFl ?id (161.875, 161.875, 161.875) (?P ! k)
                  < sqDistFl ?id (161.875, 161.875, 161.875) (?P ! j))
         \<and> (9 :: byte) = 9"
    using pix [rule_format, OF y x]
    unfolding Let_def o i thr nth per l2 nth2 .
  then have "\<exists>k<2. ?P ! k = (255, 255, 255)
         \<and> (\<forall>j<2. sqDistFl ?id (161.875, 161.875, 161.875) (?P ! k)
                  \<le> sqDistFl ?id (161.875, 161.875, 161.875) (?P ! j))"
    by (elim exE conjE) (intro exI conjI)
  with ne len s run thr per show ?thesis by (intro conjI)
qed

section \<open>One step of Floyd-Steinberg dithering\<close>

lemma distributeErrorFl_length [simp]:
  "length (distributeErrorFl rnd rnd32 buf X Y q f w h) = length buf"
  by (simp add: distributeErrorFl_def Let_def split: prod.split)

lemma update3Fl_nth:
  assumes "J + 2 < length buf" "j < length buf"
  shows "(let b1 = buf[J := F (rdF buf J) a0];
              b2 = b1[J + 1 := F (rdF b1 (J + 1)) a1];
              b3 = b2[J + 2 := F (rdF b2 (J + 2)) a2]
          in b3) ! j =
         (if j = J then F (buf ! J) a0 else if j = J + 1 then F (buf ! (J + 1)) a1
          else if j = J + 2 then F (buf ! (J + 2)) a2 else buf ! j)"
  using assms by (auto simp add: Let_def rdF_def nth_list_update)

lemma index_eq_iff:
  "c < 4 \<Longrightarrow> c' < 4 \<Longrightarrow> (4 * k + c = 4 * K + c') = (k = K \<and> c = (c' :: nat))"
  by arith

lemma raster_eq_iff:
  "tx < w \<Longrightarrow> X < w \<Longrightarrow> (ty * w + tx = Y * w + X) = (tx = X \<and> ty = (Y :: nat))"
proof
  assume lt: "tx < w" "X < w" and eq: "ty * w + tx = Y * w + X"
  have "(ty * w + tx) div w = ty" "(ty * w + tx) mod w = tx"
    using lt(1) by simp_all
  moreover have "(Y * w + X) div w = Y" "(Y * w + X) mod w = X"
    using lt(2) by simp_all
  ultimately show "tx = X \<and> ty = Y"
    using eq by simp
qed simp

lemma distributeErrorFl_nth:
  assumes len: "length buf = 4 * w * h" and t: "tx < w" "ty < h" "c < 4"
  shows "distributeErrorFl rnd rnd32 buf X Y q f w h ! (4 * (ty * w + tx) + c) =
           (if X = int tx \<and> Y = int ty \<and> c < 3
            then storeFl rnd32 (addFl rnd (buf ! (4 * (ty * w + tx) + c))
                                  (mulFl rnd (colorChannel q c) f))
            else buf ! (4 * (ty * w + tx) + c))"
proof (cases "X < 0 \<or> X \<ge> int w \<or> Y < 0 \<or> Y \<ge> int h")
  case True
  then have "\<not> (X = int tx \<and> Y = int ty)"
    using t by auto
  with True show ?thesis
    by (auto simp add: distributeErrorFl_def)
next
  case False
  then obtain X' Y' where XY: "X = int X'" "Y = int Y'" "X' < w" "Y' < h"
    by (metis nat_eq_iff2 not_le of_nat_less_iff)
  obtain q0 q1 q2 where q: "q = (q0, q1, q2)"
    by (cases q) auto
  define J where "J = 4 * (Y' * w + X')"
  define j where "j = 4 * (ty * w + tx) + c"
  define F where "F = (\<lambda>old a. storeFl rnd32 (addFl rnd old (mulFl rnd a f)))"
  have idx: "nat ((Y * int w + X) * 4) = J"
    unfolding XY J_def by (simp add: nat_mult_distrib nat_add_distrib mult.commute)
  have "Y' * w + X' < h * w" using XY(3,4) by (intro raster_index)
  then have "J + 3 < 4 * (h * w)" by (simp add: J_def)
  then have J: "J + 2 < length buf"
    using len by (simp add: mult.commute mult.left_commute)
  have "ty * w + tx < h * w" using t(1,2) by (intro raster_index)
  then have "j < 4 * (h * w)" using t(3) by (simp add: j_def)
  then have jl: "j < length buf"
    using len by (simp add: mult.commute mult.left_commute)
  have eqs: "(j = J + d) = (tx = X' \<and> ty = Y' \<and> c = d)" if "d < 4" for d
    unfolding j_def J_def
    using index_eq_iff [OF t(3) that, of "ty * w + tx" "Y' * w + X'"]
      raster_eq_iff [OF t(1) XY(3), of ty Y']
    by simp
  have "distributeErrorFl rnd rnd32 buf X Y q f w h ! j =
          (let b1 = buf[J := F (rdF buf J) q0];
               b2 = b1[J + 1 := F (rdF b1 (J + 1)) q1];
               b3 = b2[J + 2 := F (rdF b2 (J + 2)) q2]
           in b3) ! j"
    using False unfolding distributeErrorFl_def q idx F_def by simp
  also have "\<dots> = (if j = J then F (buf ! J) q0 else if j = J + 1 then F (buf ! (J + 1)) q1
          else if j = J + 2 then F (buf ! (J + 2)) q2 else buf ! j)"
    by (rule update3Fl_nth [OF J jl])
  also have "\<dots> = (if X = int tx \<and> Y = int ty \<and> c < 3
            then F (buf ! j) (colorChannel q c) else buf ! j)"
    using eqs [of 0] eqs [of 1] eqs [of 2] t(3)
    by (auto simp add: XY q colorChannel_def)
  finally show ?thesis
    unfolding j_def F_def .
qed

lemma fsKernelFl_nth:
  assumes len: "length err = 4 * w * h" and t: "tx < w" "ty < h" "c < 4"
  shows "distributeErrorFl rnd rnd32
           (distributeErrorFl rnd rnd32
             (distributeErrorFl rnd rnd32
               (distributeErrorFl rnd rnd32 err (int x + 1) (int y) qe (Num (7 / 16)) w h)
               (int x - 1) (int y + 1) qe (Num (3 / 16)) w h)
             (int x) (int y + 1) qe (Num (5 / 16)) w h)
           (int x + 1) (int y + 1) qe (Num (1 / 16)) w h ! (4 * (ty * w + tx) + c) =
         (if c < 3 \<and> fsWeight (int tx - int x) (int ty - int y) \<noteq> 0
          then storeFl rnd32
                 (addFl rnd (err ! (4 * (ty * w + tx) + c))
                    (mulFl rnd (colorChannel qe c)
                       (Num (fsWeight (int tx - int x) (int ty - int y)))))
          else err ! (4 * (ty * w + tx) + c))"
proof -
  define j where "j = 4 * (ty * w + tx) + c"
  define F where "F = (\<lambda>old f. storeFl rnd32 (addFl rnd old (mulFl rnd (colorChannel qe c) (Num f))))"
  define e1 where "e1 = distributeErrorFl rnd rnd32 err (int x + 1) (int y) qe (Num (7 / 16)) w h"
  define e2 where "e2 = distributeErrorFl rnd rnd32 e1 (int x - 1) (int y + 1) qe (Num (3 / 16)) w h"
  define e3 where "e3 = distributeErrorFl rnd rnd32 e2 (int x) (int y + 1) qe (Num (5 / 16)) w h"
  define e4 where "e4 = distributeErrorFl rnd rnd32 e3 (int x + 1) (int y + 1) qe (Num (1 / 16)) w h"
  have l: "length e1 = 4 * w * h" "length e2 = 4 * w * h" "length e3 = 4 * w * h"
    by (simp_all add: e1_def e2_def e3_def len)
  have n1: "e1 ! j = (if int x + 1 = int tx \<and> int y = int ty \<and> c < 3
                       then F (err ! j) (7 / 16) else err ! j)"
    unfolding e1_def j_def F_def by (rule distributeErrorFl_nth [OF len t])
  have n2: "e2 ! j = (if int x - 1 = int tx \<and> int y + 1 = int ty \<and> c < 3
                       then F (e1 ! j) (3 / 16) else e1 ! j)"
    unfolding e2_def j_def F_def by (rule distributeErrorFl_nth [OF l(1) t])
  have n3: "e3 ! j = (if int x = int tx \<and> int y + 1 = int ty \<and> c < 3
                       then F (e2 ! j) (5 / 16) else e2 ! j)"
    unfolding e3_def j_def F_def by (rule distributeErrorFl_nth [OF l(2) t])
  have n4: "e4 ! j = (if int x + 1 = int tx \<and> int y + 1 = int ty \<and> c < 3
                       then F (e3 ! j) (1 / 16) else e3 ! j)"
    unfolding e4_def j_def F_def by (rule distributeErrorFl_nth [OF l(3) t])
  have "e4 ! j =
         (if c < 3 \<and> fsWeight (int tx - int x) (int ty - int y) \<noteq> 0
          then F (err ! j) (fsWeight (int tx - int x) (int ty - int y))
          else err ! j)"
    unfolding n4 n3 n2 n1 fsWeight_def by auto
  then show ?thesis
    unfolding e4_def e3_def e2_def e1_def j_def F_def .
qed

lemma floydSteinbergFl_foldE:
  "floydSteinbergDitheringFl rnd rnd32 data w h s P =
     (case foldE (\<lambda>(x, y). fsPixelFl rnd rnd32 w h s P y x) (rasterOrder w h)
             (data, replicate (length data) (Num 0)) of
        Inl e \<Rightarrow> Inl e
      | Inr (d, e) \<Rightarrow> Inr d)"
  by (simp add: floydSteinbergDitheringFl_def forLoop_rasterOrder)

lemma fsPixelFl_step:
  fixes rnd :: "real \<Rightarrow> real" and s :: real
  assumes ne: "P \<noteq> []" and len: "length data = 4 * w * h" "length ev = length data"
    and xy: "x < w" "y < h"
  defines "idx \<equiv> 4 * (y * w + x)"
  defines "o0 \<equiv> rnd (byteVal (data ! idx) + ev ! idx)"
  defines "o1 \<equiv> rnd (byteVal (data ! (idx + 1)) + ev ! (idx + 1))"
  defines "o2 \<equiv> rnd (byteVal (data ! (idx + 2)) + ev ! (idx + 2))"
  assumes near: "findClosestPaletteColorFl rnd (Num o0, Num o1, Num o2) P = Inr q"
  defines "qe \<equiv> (Num (rnd (rnd (o0 - byteVal (channel q 0)) * s)),
                  Num (rnd (rnd (o1 - byteVal (channel q 1)) * s)),
                  Num (rnd (rnd (o2 - byteVal (channel q 2)) * s)))"
  shows "fsPixelFl rnd rnd32 w h (Num s) P y x (data, map Num ev) =
           Inr (setRGB data idx q,
                distributeErrorFl rnd rnd32
                  (distributeErrorFl rnd rnd32
                    (distributeErrorFl rnd rnd32
                      (distributeErrorFl rnd rnd32 (map Num ev) (int x + 1) (int y) qe
                         (Num (7 / 16)) w h)
                      (int x - 1) (int y + 1) qe (Num (3 / 16)) w h)
                    (int x) (int y + 1) qe (Num (5 / 16)) w h)
                  (int x + 1) (int y + 1) qe (Num (1 / 16)) w h)"
proof -
  have i1: "(y * w + x) * 4 = idx" by (simp add: idx_def)
  have "y * w + x < h * w" using xy by (intro raster_index)
  then have "idx + 3 < 4 * (h * w)" by (simp add: idx_def)
  then have inr: "idx + 2 < length data" "idx + 2 < length ev"
    using len by (simp_all add: mult.commute mult.left_commute)
  then have inr': "idx < length ev" "idx + 1 < length ev" "idx < length data"
    "idx + 1 < length data"
    by simp_all
  have r: "addFl rnd (rd data idx) (rdF (map Num ev) idx) = Num o0"
    "addFl rnd (rd data (idx + 1)) (rdF (map Num ev) (idx + 1)) = Num o1"
    "addFl rnd (rd data (idx + 2)) (rdF (map Num ev) (idx + 2)) = Num o2"
    using inr inr' by (simp_all add: rd_def rdF_def byteNum_def o0_def o1_def o2_def)
  obtain n0 n1 n2 where q: "q = (n0, n1, n2)" by (cases q) auto
  show ?thesis
    unfolding fsPixelFl_def i1 qe_def
    by (simp only: prod.case Let_def r near q sum.case setRGB_def channel_def byteNum_def
        subFl.simps mulFl.simps) simp
qed

lemma pixel_index_decompose:
  fixes j w h :: nat
  assumes "j < 4 * w * h"
  obtains ty tx c where "ty < h" "tx < w" "c < 4" "j = 4 * (ty * w + tx) + c"
proof -
  define k where "k = j div 4"
  define c where "c = j mod 4"
  have j: "j = 4 * k + c" and c: "c < 4"
    by (simp_all add: k_def c_def)
  have w: "0 < w"
    using assms by (cases w) simp_all
  have "4 * k < 4 * (w * h)"
    using assms j by (simp add: mult.assoc)
  then have kl: "k < w * h" by simp
  define ty where "ty = k div w"
  define tx where "tx = k mod w"
  have k: "k = ty * w + tx" and tx: "tx < w"
    using w by (simp_all add: ty_def tx_def)
  have "ty < h"
    unfolding ty_def using kl w by (simp add: div_less_iff_less_mult mult.commute)
  with tx c show ?thesis
    using that [of ty tx c] j k by simp
qed

text \<open>
  C2. Floyd-Steinberg dithering, in the arithmetic of the source (every operation on
  doubles rounded by \<open>rnd\<close>, every store into the \<open>Float32Array\<close> error buffer rounded by
  \<open>rnd32\<close>), runs its pixel step over the pixels in raster order, row by row from the top
  and from left to right in a row, starting from an error buffer of zeros. On a buffer of
  \<open>width \<times> height\<close> pixels, with a strength between 0 and 1 and an error buffer of finite
  entries of magnitude at most \<open>2\<^sup>6\<^sup>4\<close> (so that nothing overflows), the step at \<open>(x, y)\<close>
  observes the stored channels plus the error accumulated at that pixel, stores the
  nearest palette colour \<open>P[k]\<close> of the observed colour (the earliest one of least
  distance), and adds to the error buffer, for each channel,
  \<open>(observed - quantized) * strength\<close> times 7/16 at \<open>(x + 1, y)\<close>, 3/16 at
  \<open>(x - 1, y + 1)\<close>, 5/16 at \<open>(x, y + 1)\<close> and 1/16 at \<open>(x + 1, y + 1)\<close>, where these
  lie inside the image; every other entry of the error buffer is left as it was, so an
  error aimed outside \<open>[0, width) \<times> [0, height)\<close> goes nowhere.
\<close>

theorem floydSteinberg_raster_diffusion:
  fixes rnd rnd32 :: "real \<Rightarrow> real" and s :: real
  assumes "P \<noteq> []" "length data = 4 * w * h" "length ev = length data" "x < w" "y < h"
    and "0 \<le> s" "s \<le> 1" "\<forall>v\<in>set ev. \<bar>v\<bar> \<le> 2 ^ 64"
  shows "floydSteinbergDitheringFl rnd rnd32 data w h (Num s) P =
           (case foldE (\<lambda>(x, y). fsPixelFl rnd rnd32 w h (Num s) P y x) (rasterOrder w h)
                   (data, replicate (length data) (Num 0)) of
              Inl e \<Rightarrow> Inl e
            | Inr (d, e) \<Rightarrow> Inr d)
       \<and> (let idx = 4 * (y * w + x);
               observed = (rnd (byteVal (data ! idx) + ev ! idx),
                           rnd (byteVal (data ! (idx + 1)) + ev ! (idx + 1)),
                           rnd (byteVal (data ! (idx + 2)) + ev ! (idx + 2)))
           in \<exists>k<length P. \<exists>ev'.
                (\<forall>j<length P. sqDistFl rnd observed (P ! k) \<le> sqDistFl rnd observed (P ! j))
              \<and> (\<forall>j<k. sqDistFl rnd observed (P ! k) < sqDistFl rnd observed (P ! j))
              \<and> fsPixelFl rnd rnd32 w h (Num s) P y x (data, map Num ev)
                  = Inr (setRGB data idx (P ! k), map Num ev')
              \<and> length ev' = length ev
              \<and> (\<forall>ty<h. \<forall>tx<w. \<forall>c<4.
                    ev' ! (4 * (ty * w + tx) + c) =
                      (if c < 3 \<and> fsWeight (int tx - int x) (int ty - int y) \<noteq> 0
                       then rnd32 (rnd (ev ! (4 * (ty * w + tx) + c)
                              + rnd (rnd (rnd (realChannel observed c - byteVal (channel (P ! k) c))
                                          * s)
                                     * fsWeight (int tx - int x) (int ty - int y))))
                       else ev ! (4 * (ty * w + tx) + c))))"
proof -
  define idx where "idx = 4 * (y * w + x)"
  define o0 where "o0 = rnd (byteVal (data ! idx) + ev ! idx)"
  define o1 where "o1 = rnd (byteVal (data ! (idx + 1)) + ev ! (idx + 1))"
  define o2 where "o2 = rnd (byteVal (data ! (idx + 2)) + ev ! (idx + 2))"
  define obs where "obs = (o0, o1, o2)"
  obtain k where k: "k < length P"
    and near: "findClosestPaletteColorFl rnd (Num o0, Num o1, Num o2) P = Inr (P ! k)"
    and least: "\<forall>j<length P. sqDistFl rnd obs (P ! k) \<le> sqDistFl rnd obs (P ! j)"
    and first: "\<forall>j<k. sqDistFl rnd obs (P ! k) < sqDistFl rnd obs (P ! j)"
    unfolding obs_def using findClosestFl_least [OF assms(1)] by blast
  define qe where "qe = (Num (rnd (rnd (o0 - byteVal (channel (P ! k) 0)) * s)),
                         Num (rnd (rnd (o1 - byteVal (channel (P ! k) 1)) * s)),
                         Num (rnd (rnd (o2 - byteVal (channel (P ! k) 2)) * s)))"
  define err' where "err' =
     distributeErrorFl rnd rnd32
       (distributeErrorFl rnd rnd32
         (distributeErrorFl rnd rnd32
           (distributeErrorFl rnd rnd32 (map Num ev) (int x + 1) (int y) qe (Num (7 / 16)) w h)
           (int x - 1) (int y + 1) qe (Num (3 / 16)) w h)
         (int x) (int y + 1) qe (Num (5 / 16)) w h)
       (int x + 1) (int y + 1) qe (Num (1 / 16)) w h"
  define ev' where "ev' = map numVal err'"
  have len': "length (map Num ev) = 4 * w * h"
    using assms(2,3) by simp
  have step: "fsPixelFl rnd rnd32 w h (Num s) P y x (data, map Num ev)
                = Inr (setRGB data idx (P ! k), err')"
    unfolding err'_def qe_def o0_def o1_def o2_def idx_def
    by (rule fsPixelFl_step [OF assms(1-5)]) (rule near [unfolded o0_def o1_def o2_def idx_def])
  have l: "length err' = length ev"
    by (simp add: err'_def)
  have qc: "colorChannel qe c = Num (rnd (rnd (realChannel obs c - byteVal (channel (P ! k) c)) * s))"
    if "c < 3" for c
  proof -
    from that have "c = 0 \<or> c = 1 \<or> c = 2" by auto
    then show ?thesis
      by (auto simp add: qe_def obs_def colorChannel_def realChannel_def)
  qed
  have spread: "err' ! (4 * (ty * w + tx) + c) = Num
                      (if c < 3 \<and> fsWeight (int tx - int x) (int ty - int y) \<noteq> 0
                       then rnd32 (rnd (ev ! (4 * (ty * w + tx) + c)
                              + rnd (rnd (rnd (realChannel obs c - byteVal (channel (P ! k) c)) * s)
                                     * fsWeight (int tx - int x) (int ty - int y))))
                       else ev ! (4 * (ty * w + tx) + c))"
    if t: "ty < h" "tx < w" "c < 4" for ty tx c
  proof -
    define j where "j = 4 * (ty * w + tx) + c"
    have "ty * w + tx < h * w" using t(1,2) by (intro raster_index)
    then have "j < 4 * (h * w)" using t(3) by (simp add: j_def)
    then have jl: "j < length ev"
      using assms(2,3) by (simp add: mult.commute mult.left_commute)
    then have nj: "map Num ev ! j = Num (ev ! j)" by simp
    have "err' ! j =
         (if c < 3 \<and> fsWeight (int tx - int x) (int ty - int y) \<noteq> 0
          then storeFl rnd32
                 (addFl rnd (map Num ev ! j)
                    (mulFl rnd (colorChannel qe c)
                       (Num (fsWeight (int tx - int x) (int ty - int y)))))
          else map Num ev ! j)"
      unfolding err'_def j_def by (rule fsKernelFl_nth [OF len' t(2,1,3)])
    also have "\<dots> = Num
                      (if c < 3 \<and> fsWeight (int tx - int x) (int ty - int y) \<noteq> 0
                       then rnd32 (rnd (ev ! j
                              + rnd (rnd (rnd (realChannel obs c - byteVal (channel (P ! k) c)) * s)
                                     * fsWeight (int tx - int x) (int ty - int y))))
                       else ev ! j)"
      unfolding nj using qc [of c] by simp
    finally show ?thesis
      unfolding j_def .
  qed
  have num: "err' ! j = Num (numVal (err' ! j))" if "j < length err'" for j
  proof -
    from that have "j < 4 * w * h"
      using l assms(2,3) by simp
    then obtain ty tx c where "ty < h" "tx < w" "c < 4" "j = 4 * (ty * w + tx) + c"
      by (rule pixel_index_decompose)
    then show ?thesis
      using spread [of ty tx c] by simp
  qed
  have e: "err' = map Num ev'"
  proof (rule nth_equalityI)
    show "length err' = length (map Num ev')"
      by (simp add: ev'_def)
    fix i assume i: "i < length err'"
    have "err' ! i = Num (numVal (err' ! i))"
      using i by (rule num)
    also have "\<dots> = map Num ev' ! i"
      using i by (simp add: ev'_def)
    finally show "err' ! i = map Num ev' ! i" .
  qed
  have l': "length ev' = length ev"
    by (simp add: ev'_def l)
  have spread': "ev' ! (4 * (ty * w + tx) + c) =
                      (if c < 3 \<and> fsWeight (int tx - int x) (int ty - int y) \<noteq> 0
                       then rnd32 (rnd (ev ! (4 * (ty * w + tx) + c)
                              + rnd (rnd (rnd (realChannel obs c - byteVal (channel (P ! k) c)) * s)
                                     * fsWeight (int tx - int x) (int ty - int y))))
                       else ev ! (4 * (ty * w + tx) + c))"
    if t: "ty < h" "tx < w" "c < 4" for ty tx c
  proof -
    have "ty * w + tx < h * w" using t(1,2) by (intro raster_index)
    then have "4 * (ty * w + tx) + c < 4 * (h * w)" using t(3) by simp
    then have "4 * (ty * w + tx) + c < length err'"
      using l assms(2,3) by (simp add: mult.commute mult.left_commute)
    then have "ev' ! (4 * (ty * w + tx) + c) = numVal (err' ! (4 * (ty * w + tx) + c))"
      by (simp add: ev'_def)
    then show ?thesis
      by (simp only: spread [OF t] numVal.simps)
  qed
  have "\<exists>k<length P. \<exists>ev'.
                (\<forall>j<length P. sqDistFl rnd obs (P ! k) \<le> sqDistFl rnd obs (P ! j))
              \<and> (\<forall>j<k. sqDistFl rnd obs (P ! k) < sqDistFl rnd obs (P ! j))
              \<and> fsPixelFl rnd rnd32 w h (Num s) P y x (data, map Num ev)
                  = Inr (setRGB data idx (P ! k), map Num ev')
              \<and> length ev' = length ev
              \<and> (\<forall>ty<h. \<forall>tx<w. \<forall>c<4.
                    ev' ! (4 * (ty * w + tx) + c) =
                      (if c < 3 \<and> fsWeight (int tx - int x) (int ty - int y) \<noteq> 0
                       then rnd32 (rnd (ev ! (4 * (ty * w + tx) + c)
                              + rnd (rnd (rnd (realChannel obs c - byteVal (channel (P ! k) c))
                                          * s)
                                     * fsWeight (int tx - int x) (int ty - int y))))
                       else ev ! (4 * (ty * w + tx) + c)))"
    using k least first step [unfolded e] l' spread' by blast
  then show ?thesis
    unfolding Let_def obs_def o0_def o1_def o2_def idx_def
    using floydSteinbergFl_foldE [of rnd rnd32 data w h "Num s" P] by (intro conjI)
qed

text \<open>An instance where no operation of the source rounds (every intermediate value is a
  multiple of \<open>1 / 16\<close> of small magnitude), so that both roundings are the identity: the
  middle pixel of the first row of a 3x2 image, grey 200, becomes white, the second
  colour of the palette, and the error \<open>200 - 255 = -55\<close> is spread over its four
  neighbours.\<close>

theorem floydSteinberg_raster_diffusion_witness:
  "[(0, 0, 0), (255, 255, 255)] \<noteq> ([] :: rgb list)
   \<and> length ([200, 200, 200, 255, 200, 200, 200, 255, 200, 200, 200, 255,
      200, 200, 200, 255, 200, 200, 200, 255, 200, 200, 200, 255] :: byte list) = 4 * 3 * 2
   \<and> length (replicate 24 (0 :: real)) = length ([200, 200, 200, 255, 200, 200, 200, 255, 200, 200, 200, 255,
      200, 200, 200, 255, 200, 200, 200, 255, 200, 200, 200, 255] :: byte list)
   \<and> (1 :: nat) < 3 \<and> (0 :: nat) < 2 \<and> (0 :: real) \<le> 1 \<and> (1 :: real) \<le> 1
   \<and> set (replicate 24 (0 :: real)) = {0} \<and> \<bar>0 :: real\<bar> \<le> 2 ^ 64
   \<and> (\<exists>k<2. ([(0, 0, 0), (255, 255, 255)] :: rgb list) ! k = (255, 255, 255)
         \<and> (\<forall>j<2. sqDistFl (\<lambda>v. v) (200, 200, 200) ([(0, 0, 0), (255, 255, 255)] ! k)
                  \<le> sqDistFl (\<lambda>v. v) (200, 200, 200) ([(0, 0, 0), (255, 255, 255)] ! j)))
   \<and> fsPixelFl (\<lambda>v. v) (\<lambda>v. v) 3 2 (Num 1) [(0, 0, 0), (255, 255, 255)] 0 1
        ([200, 200, 200, 255, 200, 200, 200, 255, 200, 200, 200, 255,
      200, 200, 200, 255, 200, 200, 200, 255, 200, 200, 200, 255], map Num (replicate 24 0))
      = Inr ([200, 200, 200, 255, 255, 255, 255, 255, 200, 200, 200, 255,
      200, 200, 200, 255, 200, 200, 200, 255, 200, 200, 200, 255], map Num [0, 0, 0, 0, 0, 0, 0, 0, - 24.0625, - 24.0625, - 24.0625, 0,
      - 10.3125, - 10.3125, - 10.3125, 0, - 17.1875, - 17.1875, - 17.1875, 0,
      - 3.4375, - 3.4375, - 3.4375, 0])"
proof -
  let ?P = "[(0, 0, 0), (255, 255, 255)] :: rgb list"
  let ?B = "[200, 200, 200, 255, 200, 200, 200, 255, 200, 200, 200, 255,
      200, 200, 200, 255, 200, 200, 200, 255, 200, 200, 200, 255] :: byte list"
  let ?B1 = "[200, 200, 200, 255, 255, 255, 255, 255, 200, 200, 200, 255,
      200, 200, 200, 255, 200, 200, 200, 255, 200, 200, 200, 255] :: byte list"
  let ?Z = "replicate 24 (0 :: real)"
  let ?E = "[0, 0, 0, 0, 0, 0, 0, 0, - 24.0625, - 24.0625, - 24.0625, 0,
      - 10.3125, - 10.3125, - 10.3125, 0, - 17.1875, - 17.1875, - 17.1875, 0,
      - 3.4375, - 3.4375, - 3.4375, 0] :: real list"
  let ?id = "\<lambda>v :: real. v"
  have ne: "?P \<noteq> []" by simp
  have len: "length ?B = 4 * 3 * 2" "length ?Z = length ?B" by simp_all
  have xy: "(1 :: nat) < 3" "(0 :: nat) < 2" by simp_all
  have s: "(0 :: real) \<le> 1" "(1 :: real) \<le> 1" by simp_all
  have zs: "set ?Z = {0}" "\<bar>0 :: real\<bar> \<le> 2 ^ 64" by simp_all
  then have bound: "\<forall>v\<in>set ?Z. \<bar>v\<bar> \<le> 2 ^ 64" by simp
  have run: "fsPixelFl ?id ?id 3 2 (Num 1) ?P 0 1 (?B, map Num ?Z) = Inr (?B1, map Num ?E)"
    by code_simp
  have idx: "4 * (0 * 3 + 1) = (4 :: nat)" by simp
  have obs: "byteVal (?B ! 4) + ?Z ! 4 = 200" "byteVal (?B ! (4 + 1)) + ?Z ! (4 + 1) = 200"
    "byteVal (?B ! (4 + 2)) + ?Z ! (4 + 2) = 200"
    by (simp_all add: byteVal_def)
  have l2: "length ?P = 2" by simp
  obtain k ev' where k: "k < 2"
    and least: "\<forall>j<2. sqDistFl ?id (200, 200, 200) (?P ! k)
                      \<le> sqDistFl ?id (200, 200, 200) (?P ! j)"
    and step: "fsPixelFl ?id ?id 3 2 (Num 1) ?P 0 1 (?B, map Num ?Z)
                 = Inr (setRGB ?B 4 (?P ! k), map Num ev')"
    using floydSteinberg_raster_diffusion [OF ne len xy s bound, of ?id ?id]
    unfolding Let_def idx obs l2 by blast
  have "setRGB ?B 4 (?P ! k) = ?B1"
    using step run by simp
  moreover have "setRGB ?B 4 (?P ! 0) \<noteq> ?B1"
    by (simp add: setRGB_def)
  ultimately have "k \<noteq> 0" by metis
  with k have "k = 1" by simp
  then have "?P ! k = (255, 255, 255)" by simp
  with k least have "\<exists>k<2. ?P ! k = (255, 255, 255)
         \<and> (\<forall>j<2. sqDistFl ?id (200, 200, 200) (?P ! k)
                  \<le> sqDistFl ?id (200, 200, 200) (?P ! j))"
    by (intro exI conjI)
  with ne len xy s zs run show ?thesis by (intro conjI)
qed

section \<open>The rounded functions at the identity\<close>

lemma addFl_id: "addFl (\<lambda>v. v) a b = a + b"
  by (cases a; cases b) simp_all

lemma subFl_id: "subFl (\<lambda>v. v) a b = a - b"
  by (cases a; cases b) simp_all

lemma mulFl_id: "mulFl (\<lambda>v. v) a b = a * b"
  by (cases a; cases b) simp_all

lemma divFl_id: "divFl (\<lambda>v. v) a b = a / b"
  by (cases a; cases b) simp_all

lemma storeFl_id: "storeFl (\<lambda>v. v) a = a"
  by (cases a) simp_all

lemma colorDistanceFl_id: "colorDistanceFl (\<lambda>v. v) c p = colorDistance c p"
  by (cases c; cases p) (simp add: addFl_id subFl_id mulFl_id)

lemma closestLoopFl_id:
  "closestLoopFl (\<lambda>v. v) c P i cc cd = closestLoop c P i cc cd"
proof (induction c P i cc cd rule: closestLoop.induct)
  case (1 color palette i closestColor closestDistance)
  then show ?case
    by (subst closestLoopFl.simps, subst closestLoop.simps)
      (auto simp add: colorDistanceFl_id Let_def)
qed

lemma findClosestPaletteColorFl_id:
  "findClosestPaletteColorFl (\<lambda>v. v) c P = findClosestPaletteColor c P"
  by (cases P) (simp_all add: closestLoopFl_id colorDistanceFl_id)

lemma distributeErrorFl_id:
  "distributeErrorFl (\<lambda>v. v) (\<lambda>v. v) buf x y q f w h = distributeError buf x y q f w h"
  unfolding distributeErrorFl_def distributeError_def addFl_id mulFl_id storeFl_id ..

lemma fsPixelFl_id:
  "fsPixelFl (\<lambda>v. v) (\<lambda>v. v) w h s P y x st = fsPixel w h s P y x st"
  unfolding fsPixelFl_def fsPixel_def addFl_id subFl_id mulFl_id distributeErrorFl_id
    findClosestPaletteColorFl_id ..

lemma floydSteinbergDitheringFl_id:
  "floydSteinbergDitheringFl (\<lambda>v. v) (\<lambda>v. v) data w h s P = floydSteinbergDithering data w h s P"
proof -
  have "fsPixelFl (\<lambda>v. v) (\<lambda>v. v) w h s P y = fsPixel w h s P y" for y
    by (rule ext)+ (rule fsPixelFl_id)
  then show ?thesis
    unfolding floydSteinbergDitheringFl_def floydSteinbergDithering_def by simp
qed

lemma orderedPixelFl_id:
  "orderedPixelFl (\<lambda>v. v) w s P M y x data = orderedPixel w s P M y x data"
  unfolding orderedPixelFl_def orderedPixel_def addFl_id subFl_id mulFl_id divFl_id
    findClosestPaletteColorFl_id ..

lemma orderedDitheringFl_id:
  "orderedDitheringFl (\<lambda>v. v) data w h s P M = orderedDithering data w h s P M"
proof -
  have "orderedPixelFl (\<lambda>v. v) w s P M y = orderedPixel w s P M y" for y
    by (rule ext)+ (rule orderedPixelFl_id)
  then show ?thesis
    unfolding orderedDitheringFl_def orderedDithering_def by simp
qed

end
